theory Spec2Isabelle
  imports Complex_Main "HOL-Library.Word" "HOL-Library.Sublist"
begin

chapter \<open>The newsletter sender\<close>

text \<open>
  The repository holds two variants of one Node.js script. The variant with address
  validation and per-message fallback is \<^verbatim>\<open>src/unnamed/part_000\<close>; its functions keep
  their source names here. The variant without validation and fallback is
  \<^verbatim>\<open>src/.github/scripts/send-newsletter.js\<close>; where a function of it is embedded a
  second time, its name carries the suffix \<open>_nl\<close>.
\<close>

section \<open>JavaScript strings\<close>

text \<open>
  A JavaScript string is a sequence of UTF-16 code units; \<open>length\<close>, indexing,
  \<open>split\<close> and the regular expressions of the script (none has the \<open>u\<close> flag) all
  work on code units. \<open>js\<close> turns an ASCII literal into such a string.
\<close>

type_synonym jschar = "16 word"

type_synonym jsstring = "jschar list"

definition cu :: "char \<Rightarrow> jschar" where
  "cu c = of_nat (of_char c)"

definition js :: "string \<Rightarrow> jsstring" where
  "js s = map cu s"

text \<open>\<^verbatim>\<open>s.split(sep)\<close> for a separator of one code unit: the pieces between the
  separators, always at least one piece.\<close>

fun split :: "jsstring \<Rightarrow> jschar \<Rightarrow> jsstring list" where
  "split [] sep = [[]]"
| "split (c # cs) sep =
     (if c = sep then [] # split cs sep
      else (case split cs sep of [] \<Rightarrow> [[c]] | p # ps \<Rightarrow> (c # p) # ps))"

text \<open>\<^verbatim>\<open>s.repeat(n)\<close>.\<close>

definition jsrepeat :: "jsstring \<Rightarrow> nat \<Rightarrow> jsstring" where
  "jsrepeat s n = concat (replicate n s)"

section \<open>Masking of logged addresses\<close>

text \<open>
  \<^verbatim>\<open>
  function maskEmail(email) {
    const [local, domain] = email.split("@");
    if (!domain) return "***";
    const maskedLocal = local.length <= 2 ? "*".repeat(local.length)
      : local[0] + "*".repeat(local.length - 2) + local[local.length - 1];
    return maskedLocal + "@" + domain;
  }
  \<close>
  The destructuring takes the first two pieces of the split and drops the others;
  \<open>domain\<close> is undefined when there is one piece only, and \<open>!domain\<close> holds for the
  undefined value and for the empty string. The function is the same in both variants.
\<close>

definition maskEmail :: "jsstring \<Rightarrow> jsstring" where
  "maskEmail email =
     (case split email (cu CHR ''@'') of
        lcl # dmn # _ \<Rightarrow>
          if dmn = [] then js ''***''
          else
            (let maskedLocal =
               (if length lcl \<le> 2 then jsrepeat (js ''*'') (length lcl)
                else [lcl ! 0] @ jsrepeat (js ''*'') (length lcl - 2) @ [lcl ! (length lcl - 1)])
             in maskedLocal @ js ''@'' @ dmn)
      | _ \<Rightarrow> js ''***'')"

section \<open>Validation of addresses\<close>

text \<open>
  \<^verbatim>\<open>
  function isValidEmail(email) {
    return /^[^\s@]+@[^\s@]+\.[^\s@]+$/.test(email);
  }
  \<close>
  Only \<^verbatim>\<open>part_000\<close> has this function. The regular expression is embedded as a term:
  literal code units, negated classes whose items are code units or \<open>\s\<close>, sequence
  and \<open>+\<close>; \<open>Zero\<close>, \<open>One\<close>, \<open>Alt\<close> and \<open>Star\<close> are there for the derivatives. The
  pattern stands between \<open>^\<close> and \<open>$\<close> and has no flag, so \<open>test\<close> holds exactly when
  the whole input matches; \<open>regex_test\<close> decides that with Brzozowski derivatives.
\<close>

datatype cls_item = CChar jschar | CSpace

datatype regex =
    Zero
  | One
  | Lit jschar
  | NotOneOf "cls_item list"
  | Alt regex regex
  | Seq regex regex
  | Star regex
  | Plus regex

text \<open>The code units that \<open>\s\<close> matches: the white space and line terminator code
  points of ECMAScript.\<close>

definition isWhiteSpace :: "jschar \<Rightarrow> bool" where
  "isWhiteSpace c \<longleftrightarrow>
     c \<in> {0x9, 0xA, 0xB, 0xC, 0xD, 0x20, 0xA0, 0x1680, 0x2028, 0x2029, 0x202F, 0x205F,
          0x3000, 0xFEFF} \<or>
     (0x2000 \<le> c \<and> c \<le> 0x200A)"

fun item_matches :: "cls_item \<Rightarrow> jschar \<Rightarrow> bool" where
  "item_matches (CChar d) c = (c = d)"
| "item_matches CSpace c = isWhiteSpace c"

fun nullable :: "regex \<Rightarrow> bool" where
  "nullable Zero = False"
| "nullable One = True"
| "nullable (Lit c) = False"
| "nullable (NotOneOf items) = False"
| "nullable (Alt r s) = (nullable r \<or> nullable s)"
| "nullable (Seq r s) = (nullable r \<and> nullable s)"
| "nullable (Star r) = True"
| "nullable (Plus r) = nullable r"

fun deriv :: "jschar \<Rightarrow> regex \<Rightarrow> regex" where
  "deriv c Zero = Zero"
| "deriv c One = Zero"
| "deriv c (Lit d) = (if c = d then One else Zero)"
| "deriv c (NotOneOf items) = (if list_ex (\<lambda>i. item_matches i c) items then Zero else One)"
| "deriv c (Alt r s) = Alt (deriv c r) (deriv c s)"
| "deriv c (Seq r s) =
     (if nullable r then Alt (Seq (deriv c r) s) (deriv c s) else Seq (deriv c r) s)"
| "deriv c (Star r) = Seq (deriv c r) (Star r)"
| "deriv c (Plus r) = Seq (deriv c r) (Star r)"

definition regex_test :: "regex \<Rightarrow> jsstring \<Rightarrow> bool" where
  "regex_test r s = nullable (foldl (\<lambda>r c. deriv c r) r s)"

text \<open>\<^verbatim>\<open>[^\s@]\<close> and \<^verbatim>\<open>[^\s@]+@[^\s@]+\.[^\s@]+\<close>.\<close>

definition notSpaceOrAt :: regex where
  "notSpaceOrAt = NotOneOf [CSpace, CChar (cu CHR ''@'')]"

definition emailRegex :: regex where
  "emailRegex =
     Seq (Plus notSpaceOrAt)
       (Seq (Lit (cu CHR ''@''))
          (Seq (Plus notSpaceOrAt)
             (Seq (Lit (cu CHR ''.'')) (Plus notSpaceOrAt))))"

definition isValidEmail :: "jsstring \<Rightarrow> bool" where
  "isValidEmail email = regex_test emailRegex email"

section \<open>Messages, results and the outside world\<close>

text \<open>Parsed JSON, as \<^verbatim>\<open>fetchJson\<close> hands it on in \<open>data\<close> (the raw text, a string,
  when the body does not parse).\<close>

datatype jsvalue =
    JNull
  | JBool bool
  | JNum int
  | JStr jsstring
  | JArr "jsvalue list"
  | JObj "(jsstring \<times> jsvalue) list"

text \<open>A subscriber record of the directory; fields other than \<open>email\<close> are never read.\<close>

record subscriber =
  sub_email :: jsstring

text \<open>The message object \<^verbatim>\<open>{ from, to, subject, html }\<close>.\<close>

record email_message =
  msg_from :: jsstring
  msg_to :: jsstring
  msg_subject :: jsstring
  msg_html :: jsstring

text \<open>What \<^verbatim>\<open>fetchJson\<close> resolves to: \<^verbatim>\<open>{ status, data }\<close>.\<close>

record http_response =
  resp_status :: nat
  resp_data :: jsvalue

text \<open>The results of \<^verbatim>\<open>sendBatch\<close> and \<^verbatim>\<open>sendSingle\<close>: \<open>success\<close> always, \<open>status\<close> and
  \<open>data\<close> only in the object literals that write them.\<close>

record send_result =
  success :: bool
  status :: "nat option"
  data :: "jsvalue option"

text \<open>
  Exceptions. \<^verbatim>\<open>fetchJson\<close> rejects its promise when the request emits \<open>error\<close>
  (\<^verbatim>\<open>req.on("error", reject)\<close>); \<^verbatim>\<open>encodeURIComponent\<close> throws a URIError on a lone
  surrogate.
\<close>

datatype exn = NetworkError | URIError

text \<open>
  The requests the script issues, with what varies in them:
  \<^item> \<^verbatim>\<open>GET workerUrl + "/subscribers"\<close> with the header \<open>X-API-Secret\<close>;
  \<^item> \<^verbatim>\<open>POST https://api.resend.com/emails/batch\<close> with the bearer key and the
    messages as JSON body;
  \<^item> \<^verbatim>\<open>POST https://api.resend.com/emails\<close> with the bearer key and one message.
\<close>

datatype request =
    GetSubscribers jsstring jsstring
  | PostBatch jsstring "email_message list"
  | PostSingle jsstring email_message

text \<open>The lines the script prints; the comment gives the source text of each.\<close>

datatype logline =
    MissingEnv                    \<comment> \<open>\<^verbatim>\<open>"Missing required env vars, skipping newsletter"\<close>\<close>
  | TemplateNotFound jsstring     \<comment> \<open>\<^verbatim>\<open>"Email HTML not found:", emailPath\<close>\<close>
  | FetchingSubscribers           \<comment> \<open>\<^verbatim>\<open>"Fetching subscribers..."\<close>\<close>
  | FetchFailed nat               \<comment> \<open>\<^verbatim>\<open>"Failed to fetch subscribers:", subResp.status\<close>\<close>
  | Found nat                     \<comment> \<open>\<^verbatim>\<open>"Found", n, "subscriber(s)"\<close>\<close>
  | SkippingInvalid nat "jsstring list"
                                  \<comment> \<open>\<^verbatim>\<open>"Skipping", n, "invalid email(s):", masked.join(", ")\<close>\<close>
  | NoValidSubscribers            \<comment> \<open>\<^verbatim>\<open>"No valid subscribers, done"\<close>\<close>
  | NoSubscribers                 \<comment> \<open>\<^verbatim>\<open>"No subscribers, done"\<close>\<close>
  | SendingBatch nat nat nat      \<comment> \<open>\<^verbatim>\<open>`Sending batch ${batchNum}/${totalBatches} (${batch.length} emails)...`\<close>\<close>
  | RateLimited int               \<comment> \<open>\<^verbatim>\<open>"  Rate limited, retrying batch in", backoff, "ms..."\<close>\<close>
  | SentTo jsstring               \<comment> \<open>\<^verbatim>\<open>"  Sent to", maskEmail(e.to)\<close>\<close>
  | BatchFailedFallingBack "nat option"
                                  \<comment> \<open>\<^verbatim>\<open>"  Batch failed (" + result.status + "), falling back to individual sends..."\<close>\<close>
  | FailedForStatus jsstring "nat option"
                                  \<comment> \<open>\<^verbatim>\<open>"  Failed for", maskEmail(e.to), ":", r.status\<close>\<close>
  | BatchFailed "nat option" "jsvalue option"
                                  \<comment> \<open>\<^verbatim>\<open>"  Batch failed:", result.status, JSON.stringify(result.data).slice(0, 200)\<close>\<close>
  | FailedFor jsstring            \<comment> \<open>\<^verbatim>\<open>"  Failed for", maskEmail(batch[j].to)\<close>\<close>
  | Done nat nat nat              \<comment> \<open>\<^verbatim>\<open>"Done:", sent, "sent,", failed, "failed, out of", n\<close>\<close>
  | Uncaught exn                  \<comment> \<open>\<^verbatim>\<open>console.error(err)\<close> of the final \<open>catch\<close>\<close>

text \<open>What a run does that can be seen from outside, in order.\<close>

datatype event =
    Request request
  | Sleep int
  | Log logline
  | LogError logline

text \<open>
  The outside world answers the requests. A promise of \<^verbatim>\<open>fetchJson\<close> either resolves
  to a response or is rejected. The directory is asked once; the provider's answer to
  the \<open>k\<close>-th request sent to it is \<open>provider w k\<close>, whatever the request. The body of
  the directory's answer is taken as decoded into subscriber records.
\<close>

datatype 'a promise = Resolved 'a | Rejected

record world =
  directory :: "(nat \<times> subscriber list) promise"
  provider :: "nat \<Rightarrow> http_response promise"

text \<open>
  The state of a run: how many requests the provider has received, what has happened so
  far, and the two counters \<^verbatim>\<open>let sent = 0, failed = 0\<close> of \<open>main\<close>.
\<close>

record run_state =
  calls :: nat
  trace :: "event list"
  sent :: nat
  failed :: nat

definition emit :: "event \<Rightarrow> run_state \<Rightarrow> run_state" where
  "emit e st = st\<lparr>trace := trace st @ [e]\<rparr>"

text \<open>\<^verbatim>\<open>await sleep(ms)\<close>, \<^verbatim>\<open>console.log\<close>, \<^verbatim>\<open>console.error\<close>.\<close>

definition sleep :: "int \<Rightarrow> run_state \<Rightarrow> run_state" where
  "sleep ms st = emit (Sleep ms) st"

definition console_log :: "logline \<Rightarrow> run_state \<Rightarrow> run_state" where
  "console_log l st = emit (Log l) st"

definition console_error :: "logline \<Rightarrow> run_state \<Rightarrow> run_state" where
  "console_error l st = emit (LogError l) st"

text \<open>\<^verbatim>\<open>await fetchJson(url, options)\<close> for a request to the provider.\<close>

definition fetchJson :: "world \<Rightarrow> request \<Rightarrow> run_state \<Rightarrow> (exn + http_response) \<times> run_state" where
  "fetchJson w req st =
     (let st' = emit (Request req) (st\<lparr>calls := calls st + 1\<rparr>) in
      case provider w (calls st) of
        Rejected \<Rightarrow> (Inl NetworkError, st')
      | Resolved resp \<Rightarrow> (Inr resp, st'))"

text \<open>The same for the one request to the directory, whose body is a subscriber list.\<close>

definition fetchJson_directory ::
  "world \<Rightarrow> request \<Rightarrow> run_state \<Rightarrow> (exn + nat \<times> subscriber list) \<times> run_state" where
  "fetchJson_directory w req st =
     (let st' = emit (Request req) st in
      case directory w of
        Rejected \<Rightarrow> (Inl NetworkError, st')
      | Resolved resp \<Rightarrow> (Inr resp, st'))"

text \<open>The state in which a run starts.\<close>

definition st0 :: run_state where
  "st0 = \<lparr>calls = 0, trace = [], sent = 0, failed = 0\<rparr>"

section \<open>The payload builder\<close>

text \<open>
  The globals of the script after its start: the environment variables it keeps, the
  sender \<^verbatim>\<open>FROM = RESEND_FROM || "YOMOO ... <daily@yomoo.net>"\<close>, the subject
  \<^verbatim>\<open>SUBJECT = "YOMOO ... " + EPISODE_DATE\<close> and the template read from
  \<^verbatim>\<open>episodes/<EPISODE_DATE>/email.html\<close>.
\<close>

record config =
  RESEND_API_KEY :: jsstring
  WORKER_URL :: jsstring
  WORKER_SECRET :: jsstring
  FROM :: jsstring
  SUBJECT :: jsstring
  emailTemplate :: jsstring

text \<open>
  \<^verbatim>\<open>
  function hmacToken(email, secret) {
    return crypto.createHmac("sha256", secret).update(email).digest("hex");
  }
  \<close>
  The keyed hash of Node's \<open>crypto\<close> is a parameter: \<open>hmac secret message\<close> is the
  digest, a list of bytes. \<open>digest("hex")\<close> writes each byte as two lower-case
  hexadecimal digits.
\<close>

type_synonym hmac_function = "jsstring \<Rightarrow> jsstring \<Rightarrow> 8 word list"

definition hexByte :: "8 word \<Rightarrow> jsstring" where
  "hexByte b = [js ''0123456789abcdef'' ! (unat b div 16), js ''0123456789abcdef'' ! (unat b mod 16)]"

definition hmacToken :: "hmac_function \<Rightarrow> jsstring \<Rightarrow> jsstring \<Rightarrow> jsstring" where
  "hmacToken hmac email secret = concat (map hexByte (hmac secret email))"

text \<open>
  \<^verbatim>\<open>encodeURIComponent(s)\<close>, as ECMAScript defines it: the unreserved code units
  (letters, digits and \<^verbatim>\<open>- _ . ! ~ * ' ( )\<close>) are kept; every other code point is
  written as the octets of its UTF-8 encoding, each as \<open>%\<close> and two upper-case
  hexadecimal digits; a surrogate that is not part of a pair throws a URIError.
\<close>

definition uriUnescaped :: "jschar \<Rightarrow> bool" where
  "uriUnescaped c \<longleftrightarrow>
     (0x41 \<le> c \<and> c \<le> 0x5A) \<or> (0x61 \<le> c \<and> c \<le> 0x7A) \<or> (0x30 \<le> c \<and> c \<le> 0x39) \<or>
     c \<in> {0x2D, 0x5F, 0x2E, 0x21, 0x7E, 0x2A, 0x27, 0x28, 0x29}"

definition isLeadSurrogate :: "jschar \<Rightarrow> bool" where
  "isLeadSurrogate c \<longleftrightarrow> 0xD800 \<le> c \<and> c \<le> 0xDBFF"

definition isTrailSurrogate :: "jschar \<Rightarrow> bool" where
  "isTrailSurrogate c \<longleftrightarrow> 0xDC00 \<le> c \<and> c \<le> 0xDFFF"

definition surrogatePairToCodePoint :: "jschar \<Rightarrow> jschar \<Rightarrow> nat" where
  "surrogatePairToCodePoint c d = (unat c - 0xD800) * 0x400 + (unat d - 0xDC00) + 0x10000"

definition utf8 :: "nat \<Rightarrow> 8 word list" where
  "utf8 cp =
     (if cp < 0x80 then [of_nat cp]
      else if cp < 0x800 then [of_nat (0xC0 + cp div 0x40), of_nat (0x80 + cp mod 0x40)]
      else if cp < 0x10000 then
        [of_nat (0xE0 + cp div 0x1000), of_nat (0x80 + cp div 0x40 mod 0x40),
         of_nat (0x80 + cp mod 0x40)]
      else
        [of_nat (0xF0 + cp div 0x40000), of_nat (0x80 + cp div 0x1000 mod 0x40),
         of_nat (0x80 + cp div 0x40 mod 0x40), of_nat (0x80 + cp mod 0x40)])"

definition pctByte :: "8 word \<Rightarrow> jsstring" where
  "pctByte b =
     [cu CHR ''%'', js ''0123456789ABCDEF'' ! (unat b div 16), js ''0123456789ABCDEF'' ! (unat b mod 16)]"

definition pctEncode :: "nat \<Rightarrow> jsstring" where
  "pctEncode cp = concat (map pctByte (utf8 cp))"

fun encodeURIComponent :: "jsstring \<Rightarrow> exn + jsstring" where
  "encodeURIComponent [] = Inr []"
| "encodeURIComponent (c # cs) =
     (if uriUnescaped c then
        (case encodeURIComponent cs of Inl x \<Rightarrow> Inl x | Inr r \<Rightarrow> Inr (c # r))
      else if isTrailSurrogate c then Inl URIError
      else if isLeadSurrogate c then
        (case cs of
           [] \<Rightarrow> Inl URIError
         | d # ds \<Rightarrow>
             if isTrailSurrogate d then
               (case encodeURIComponent ds of
                  Inl x \<Rightarrow> Inl x
                | Inr r \<Rightarrow> Inr (pctEncode (surrogatePairToCodePoint c d) @ r))
             else Inl URIError)
      else
        (case encodeURIComponent cs of
           Inl x \<Rightarrow> Inl x
         | Inr r \<Rightarrow> Inr (pctEncode (unat c) @ r)))"

text \<open>
  \<^verbatim>\<open>emailTemplate.replace(/{{UNSUBSCRIBE_URL}}/g, unsubUrl)\<close>. The pattern has no
  operator (a brace that starts no quantifier is a literal character), so it matches the
  marker and nothing else. With the flag \<open>g\<close> the matches are found from left to right,
  each search starting where the previous match ended. Each match is replaced by the
  expansion of the replacement string (ECMAScript's GetSubstitution for a pattern with no
  capture group): \<open>$$\<close> stands for \<open>$\<close>, \<open>$&\<close> for the matched text, \<open>$`\<close> for the input
  before the match, \<open>$'\<close> for the input after it; any other \<open>$\<close> stands for itself.
\<close>

definition UNSUBSCRIBE_MARKER :: jsstring where
  "UNSUBSCRIBE_MARKER = js ''{{UNSUBSCRIBE_URL}}''"

fun getSubstitution :: "jsstring \<Rightarrow> jsstring \<Rightarrow> jsstring \<Rightarrow> jsstring \<Rightarrow> jsstring" where
  "getSubstitution matched pre post [] = []"
| "getSubstitution matched pre post [c] = [c]"
| "getSubstitution matched pre post (c # d # t) =
     (if c = cu CHR ''$'' \<and> d = cu CHR ''$'' then
        cu CHR ''$'' # getSubstitution matched pre post t
      else if c = cu CHR ''$'' \<and> d = cu CHR ''&'' then
        matched @ getSubstitution matched pre post t
      else if c = cu CHR ''$'' \<and> d = cu CHR 0x60 then
        pre @ getSubstitution matched pre post t
      else if c = cu CHR ''$'' \<and> d = cu CHR 0x27 then
        post @ getSubstitution matched pre post t
      else c # getSubstitution matched pre post (d # t))"

text \<open>\<open>replace_scan pat repl pre rest\<close>: the result for the part \<open>rest\<close> of the input
  that follows the part \<open>pre\<close>, for a non-empty literal pattern \<open>pat\<close>.\<close>

function replace_scan :: "jsstring \<Rightarrow> jsstring \<Rightarrow> jsstring \<Rightarrow> jsstring \<Rightarrow> jsstring" where
  "replace_scan pat repl pre [] = []"
| "replace_scan pat repl pre (c # cs) =
     (if pat \<noteq> [] \<and> prefix pat (c # cs) then
        getSubstitution pat pre (drop (length pat) (c # cs)) repl
          @ replace_scan pat repl (pre @ pat) (drop (length pat) (c # cs))
      else c # replace_scan pat repl (pre @ [c]) cs)"
  by pat_completeness auto
termination
  by (relation "measure (\<lambda>(pat, repl, pre, rest). length rest)") auto

declare replace_scan.simps [simp del]

definition replace_all :: "jsstring \<Rightarrow> jsstring \<Rightarrow> jsstring \<Rightarrow> jsstring" where
  "replace_all pat repl s = replace_scan pat repl [] s"

text \<open>
  \<^verbatim>\<open>
  function buildEmailPayload(sub, workerUrl) {
    const token = hmacToken(sub.email, WORKER_SECRET);
    const unsubUrl = workerUrl + "/unsubscribe?email=" + encodeURIComponent(sub.email)
                     + "&token=" + token;
    const html = emailTemplate.replace(/{{UNSUBSCRIBE_URL}}/g, unsubUrl);
    return { from: FROM, to: sub.email, subject: SUBJECT, html: html };
  }
  \<close>
\<close>

definition buildEmailPayload ::
  "hmac_function \<Rightarrow> config \<Rightarrow> subscriber \<Rightarrow> jsstring \<Rightarrow> exn + email_message" where
  "buildEmailPayload hmac cfg sub workerUrl =
     (let token = hmacToken hmac (sub_email sub) (WORKER_SECRET cfg) in
      case encodeURIComponent (sub_email sub) of
        Inl x \<Rightarrow> Inl x
      | Inr encoded \<Rightarrow>
          (let unsubUrl = workerUrl @ js ''/unsubscribe?email='' @ encoded @ js ''&token='' @ token;
               html = replace_all UNSUBSCRIBE_MARKER unsubUrl (emailTemplate cfg)
           in Inr \<lparr>msg_from = FROM cfg, msg_to = sub_email sub, msg_subject = SUBJECT cfg,
                    msg_html = html\<rparr>))"

text \<open>The same computation stands inline in \<open>main\<close> of \<^verbatim>\<open>send-newsletter.js\<close>
  (lines 107-117), as the function mapped over the subscribers.\<close>

definition buildEmailPayload_nl ::
  "hmac_function \<Rightarrow> config \<Rightarrow> subscriber \<Rightarrow> jsstring \<Rightarrow> exn + email_message" where
  "buildEmailPayload_nl hmac cfg sub workerUrl =
     (let token = hmacToken hmac (sub_email sub) (WORKER_SECRET cfg) in
      case encodeURIComponent (sub_email sub) of
        Inl x \<Rightarrow> Inl x
      | Inr encoded \<Rightarrow>
          (let unsubUrl = workerUrl @ js ''/unsubscribe?email='' @ encoded @ js ''&token='' @ token;
               html = replace_all UNSUBSCRIBE_MARKER unsubUrl (emailTemplate cfg)
           in Inr \<lparr>msg_from = FROM cfg, msg_to = sub_email sub, msg_subject = SUBJECT cfg,
                    msg_html = html\<rparr>))"

section \<open>The delivery client\<close>

text \<open>
  \<^verbatim>\<open>
  async function sendBatch(emails, maxRetries = 3) {
    for (let attempt = 1; attempt <= maxRetries; attempt++) {
      const resp = await fetchJson("https://api.resend.com/emails/batch", { ... });
      if (resp.status >= 200 && resp.status < 300) {
        return { success: true, data: resp.data };
      }
      if (resp.status === 429 && attempt < maxRetries) {
        const backoff = attempt * 3000;
        console.log("  Rate limited, retrying batch in", backoff, "ms...");
        await sleep(backoff);
        continue;
      }
      return { success: false, status: resp.status, data: resp.data };
    }
    return { success: false, status: 429, data: "Max retries exceeded" };
  }
  \<close>
  The loop is \<open>sendBatch_loop\<close>, with the loop variable \<open>attempt\<close> as an argument; the
  first argument \<open>key\<close> is the global \<open>RESEND_API_KEY\<close>. A rejected request leaves the
  function as an exception.
\<close>

function sendBatch_loop ::
  "world \<Rightarrow> jsstring \<Rightarrow> email_message list \<Rightarrow> int \<Rightarrow> int \<Rightarrow> run_state \<Rightarrow>
   (exn + send_result) \<times> run_state" where
  "sendBatch_loop w key emails maxRetries attempt st =
     (if attempt \<le> maxRetries then
        (case fetchJson w (PostBatch key emails) st of
           (Inl e, st1) \<Rightarrow> (Inl e, st1)
         | (Inr resp, st1) \<Rightarrow>
             if resp_status resp \<ge> 200 \<and> resp_status resp < 300 then
               (Inr \<lparr>success = True, status = None, data = Some (resp_data resp)\<rparr>, st1)
             else if resp_status resp = 429 \<and> attempt < maxRetries then
               (let backoff = attempt * 3000 in
                sendBatch_loop w key emails maxRetries (attempt + 1)
                  (sleep backoff (console_log (RateLimited backoff) st1)))
             else
               (Inr \<lparr>success = False, status = Some (resp_status resp),
                     data = Some (resp_data resp)\<rparr>, st1))
      else
        (Inr \<lparr>success = False, status = Some 429,
              data = Some (JStr (js ''Max retries exceeded''))\<rparr>, st))"
  by pat_completeness auto
termination
  by (relation "measure (\<lambda>(w, key, emails, maxRetries, attempt, st). nat (maxRetries + 1 - attempt))")
     auto

declare sendBatch_loop.simps [simp del]

definition sendBatch ::
  "world \<Rightarrow> jsstring \<Rightarrow> email_message list \<Rightarrow> int \<Rightarrow> run_state \<Rightarrow>
   (exn + send_result) \<times> run_state" where
  "sendBatch w key emails maxRetries st = sendBatch_loop w key emails maxRetries 1 st"

text \<open>The function \<open>sendBatch\<close> of \<^verbatim>\<open>send-newsletter.js\<close>, embedded from its own text.\<close>

function sendBatch_loop_nl ::
  "world \<Rightarrow> jsstring \<Rightarrow> email_message list \<Rightarrow> int \<Rightarrow> int \<Rightarrow> run_state \<Rightarrow>
   (exn + send_result) \<times> run_state" where
  "sendBatch_loop_nl w key emails maxRetries attempt st =
     (if attempt \<le> maxRetries then
        (case fetchJson w (PostBatch key emails) st of
           (Inl e, st1) \<Rightarrow> (Inl e, st1)
         | (Inr resp, st1) \<Rightarrow>
             if resp_status resp \<ge> 200 \<and> resp_status resp < 300 then
               (Inr \<lparr>success = True, status = None, data = Some (resp_data resp)\<rparr>, st1)
             else if resp_status resp = 429 \<and> attempt < maxRetries then
               (let backoff = attempt * 3000 in
                sendBatch_loop_nl w key emails maxRetries (attempt + 1)
                  (sleep backoff (console_log (RateLimited backoff) st1)))
             else
               (Inr \<lparr>success = False, status = Some (resp_status resp),
                     data = Some (resp_data resp)\<rparr>, st1))
      else
        (Inr \<lparr>success = False, status = Some 429,
              data = Some (JStr (js ''Max retries exceeded''))\<rparr>, st))"
  by pat_completeness auto
termination
  by (relation "measure (\<lambda>(w, key, emails, maxRetries, attempt, st). nat (maxRetries + 1 - attempt))")
     auto

declare sendBatch_loop_nl.simps [simp del]

definition sendBatch_nl ::
  "world \<Rightarrow> jsstring \<Rightarrow> email_message list \<Rightarrow> int \<Rightarrow> run_state \<Rightarrow>
   (exn + send_result) \<times> run_state" where
  "sendBatch_nl w key emails maxRetries st = sendBatch_loop_nl w key emails maxRetries 1 st"

text \<open>
  \<^verbatim>\<open>
  async function sendSingle(email, maxRetries = 3) {
    for (let attempt = 1; attempt <= maxRetries; attempt++) {
      const resp = await fetchJson("https://api.resend.com/emails", { ... });
      if (resp.status >= 200 && resp.status < 300) {
        return { success: true };
      }
      if (resp.status === 429 && attempt < maxRetries) {
        const backoff = attempt * 2000;
        await sleep(backoff);
        continue;
      }
      return { success: false, status: resp.status };
    }
    return { success: false, status: 429 };
  }
  \<close>
  Only \<^verbatim>\<open>part_000\<close> has this function.
\<close>

function sendSingle_loop ::
  "world \<Rightarrow> jsstring \<Rightarrow> email_message \<Rightarrow> int \<Rightarrow> int \<Rightarrow> run_state \<Rightarrow>
   (exn + send_result) \<times> run_state" where
  "sendSingle_loop w key email maxRetries attempt st =
     (if attempt \<le> maxRetries then
        (case fetchJson w (PostSingle key email) st of
           (Inl e, st1) \<Rightarrow> (Inl e, st1)
         | (Inr resp, st1) \<Rightarrow>
             if resp_status resp \<ge> 200 \<and> resp_status resp < 300 then
               (Inr \<lparr>success = True, status = None, data = None\<rparr>, st1)
             else if resp_status resp = 429 \<and> attempt < maxRetries then
               (let backoff = attempt * 2000 in
                sendSingle_loop w key email maxRetries (attempt + 1) (sleep backoff st1))
             else
               (Inr \<lparr>success = False, status = Some (resp_status resp), data = None\<rparr>, st1))
      else
        (Inr \<lparr>success = False, status = Some 429, data = None\<rparr>, st))"
  by pat_completeness auto
termination
  by (relation "measure (\<lambda>(w, key, email, maxRetries, attempt, st). nat (maxRetries + 1 - attempt))")
     auto

declare sendSingle_loop.simps [simp del]

definition sendSingle ::
  "world \<Rightarrow> jsstring \<Rightarrow> email_message \<Rightarrow> int \<Rightarrow> run_state \<Rightarrow>
   (exn + send_result) \<times> run_state" where
  "sendSingle w key email maxRetries st = sendSingle_loop w key email maxRetries 1 st"

section \<open>The delivery loop\<close>

definition BATCH_SIZE :: nat where
  "BATCH_SIZE = 50"

text \<open>\<^verbatim>\<open>xs.slice(start, stop)\<close> for \<open>start \<le> stop\<close>: the elements from index \<open>start\<close> up to, and
  without, index \<open>stop\<close> or the end of the array.\<close>

definition slice :: "'a list \<Rightarrow> nat \<Rightarrow> nat \<Rightarrow> 'a list" where
  "slice xs start stop = take (stop - start) (drop start xs)"

text \<open>
  The loop over the batches has the same text in both variants, but for the body between
  the call of \<open>sendBatch\<close> and the pause:
  \<^verbatim>\<open>
  for (let i = 0; i < allEmails.length; i += BATCH_SIZE) {
    const batch = allEmails.slice(i, i + BATCH_SIZE);
    const batchNum = Math.floor(i / BATCH_SIZE) + 1;
    const totalBatches = Math.ceil(allEmails.length / BATCH_SIZE);
    console.log(`Sending batch ${batchNum}/${totalBatches} (${batch.length} emails)...`);
    const result = await sendBatch(batch);
    ... body ...
    if (i + BATCH_SIZE < allEmails.length) {
      await sleep(1000);
    }
  }
  \<close>
  \<open>batch_loop\<close> is this loop, with the loop variable \<open>i\<close> as an argument and the part
  from \<open>sendBatch\<close> to the end of the body as the parameter \<open>body\<close>. The quotients are
  the exact ones (the lengths are far below \<open>2^53\<close>).
\<close>

function batch_loop ::
  "(email_message list \<Rightarrow> run_state \<Rightarrow> (exn + unit) \<times> run_state) \<Rightarrow>
   email_message list \<Rightarrow> nat \<Rightarrow> run_state \<Rightarrow> (exn + unit) \<times> run_state" where
  "batch_loop body allEmails i st =
     (if i < length allEmails then
        (let batch = slice allEmails i (i + BATCH_SIZE);
             batchNum = i div BATCH_SIZE + 1;
             totalBatches = nat \<lceil>real (length allEmails) / real BATCH_SIZE\<rceil>;
             st1 = console_log (SendingBatch batchNum totalBatches (length batch)) st
         in case body batch st1 of
              (Inl x, st2) \<Rightarrow> (Inl x, st2)
            | (Inr _, st2) \<Rightarrow>
                batch_loop body allEmails (i + BATCH_SIZE)
                  (if i + BATCH_SIZE < length allEmails then sleep 1000 st2 else st2))
      else (Inr (), st))"
  by pat_completeness auto
termination
  by (relation "measure (\<lambda>(body, allEmails, i, st). length allEmails - i)")
     (auto simp: BATCH_SIZE_def)

declare batch_loop.simps [simp del]

text \<open>\<^verbatim>\<open>for (const e of batch) console.log("  Sent to", maskEmail(e.to))\<close>; the loop over
  \<open>j\<close> of the other variant prints the same lines.\<close>

fun log_sent :: "email_message list \<Rightarrow> run_state \<Rightarrow> run_state" where
  "log_sent [] st = st"
| "log_sent (e # es) st = log_sent es (console_log (SentTo (maskEmail (msg_to e))) st)"

text \<open>
  The fallback of \<^verbatim>\<open>part_000\<close>:
  \<^verbatim>\<open>
  for (const e of batch) {
    const r = await sendSingle(e);
    if (r.success) {
      sent++;
      console.log("  Sent to", maskEmail(e.to));
    } else {
      failed++;
      console.error("  Failed for", maskEmail(e.to), ":", r.status);
    }
    await sleep(600);
  }
  \<close>
\<close>

fun fallback_loop ::
  "world \<Rightarrow> jsstring \<Rightarrow> email_message list \<Rightarrow> run_state \<Rightarrow> (exn + unit) \<times> run_state" where
  "fallback_loop w key [] st = (Inr (), st)"
| "fallback_loop w key (e # es) st =
     (case sendSingle w key e 3 st of
        (Inl x, st1) \<Rightarrow> (Inl x, st1)
      | (Inr r, st1) \<Rightarrow>
          (let st2 =
             (if success r then
                console_log (SentTo (maskEmail (msg_to e))) (st1\<lparr>sent := sent st1 + 1\<rparr>)
              else
                console_error (FailedForStatus (maskEmail (msg_to e)) (status r))
                  (st1\<lparr>failed := failed st1 + 1\<rparr>))
           in fallback_loop w key es (sleep 600 st2)))"

text \<open>
  The body of the loop in \<^verbatim>\<open>part_000\<close>:
  \<^verbatim>\<open>
  const result = await sendBatch(batch);
  if (result.success) {
    sent += batch.length;
    for (const e of batch) { console.log("  Sent to", maskEmail(e.to)); }
  } else {
    console.log("  Batch failed (" + result.status + "), falling back to individual sends...");
    for (const e of batch) { ... }
  }
  \<close>
\<close>

definition process_batch ::
  "world \<Rightarrow> jsstring \<Rightarrow> email_message list \<Rightarrow> run_state \<Rightarrow> (exn + unit) \<times> run_state" where
  "process_batch w key batch st =
     (case sendBatch w key batch 3 st of
        (Inl x, st1) \<Rightarrow> (Inl x, st1)
      | (Inr result, st1) \<Rightarrow>
          if success result then
            (Inr (), log_sent batch (st1\<lparr>sent := sent st1 + length batch\<rparr>))
          else
            fallback_loop w key batch
              (console_log (BatchFailedFallingBack (status result)) st1))"

definition deliver ::
  "world \<Rightarrow> jsstring \<Rightarrow> email_message list \<Rightarrow> run_state \<Rightarrow> (exn + unit) \<times> run_state" where
  "deliver w key allEmails st = batch_loop (process_batch w key) allEmails 0 st"

text \<open>
  The body of the loop in \<^verbatim>\<open>send-newsletter.js\<close>:
  \<^verbatim>\<open>
  const result = await sendBatch(batch);
  if (result.success) {
    const data = Array.isArray(result.data) ? result.data : (result.data?.data || []);
    sent += batch.length;
    for (let j = 0; j < batch.length; j++) { console.log("  Sent to", maskEmail(batch[j].to)); }
  } else {
    failed += batch.length;
    console.error("  Batch failed:", result.status, JSON.stringify(result.data).slice(0, 200));
    for (let j = 0; j < batch.length; j++) { console.error("  Failed for", maskEmail(batch[j].to)); }
  }
  \<close>
  The constant \<open>data\<close> of the first branch is never read.
\<close>

fun log_failed :: "email_message list \<Rightarrow> run_state \<Rightarrow> run_state" where
  "log_failed [] st = st"
| "log_failed (e # es) st = log_failed es (console_error (FailedFor (maskEmail (msg_to e))) st)"

definition process_batch_nl ::
  "world \<Rightarrow> jsstring \<Rightarrow> email_message list \<Rightarrow> run_state \<Rightarrow> (exn + unit) \<times> run_state" where
  "process_batch_nl w key batch st =
     (case sendBatch_nl w key batch 3 st of
        (Inl x, st1) \<Rightarrow> (Inl x, st1)
      | (Inr result, st1) \<Rightarrow>
          if success result then
            (Inr (), log_sent batch (st1\<lparr>sent := sent st1 + length batch\<rparr>))
          else
            (Inr (), log_failed batch
               (console_error (BatchFailed (status result) (data result))
                  (st1\<lparr>failed := failed st1 + length batch\<rparr>))))"

definition deliver_nl ::
  "world \<Rightarrow> jsstring \<Rightarrow> email_message list \<Rightarrow> run_state \<Rightarrow> (exn + unit) \<times> run_state" where
  "deliver_nl w key allEmails st = batch_loop (process_batch_nl w key) allEmails 0 st"

section \<open>The run\<close>

text \<open>
  The script starts by reading five environment variables; each is a string or
  undefined. \<open>!X\<close> holds for the undefined value and for the empty string.
\<close>

record environment =
  env_RESEND_API_KEY :: "jsstring option"
  env_WORKER_URL :: "jsstring option"
  env_WORKER_SECRET :: "jsstring option"
  env_RESEND_FROM :: "jsstring option"
  env_EPISODE_DATE :: "jsstring option"

definition falsy :: "jsstring option \<Rightarrow> bool" where
  "falsy x \<longleftrightarrow> x = None \<or> x = Some []"

text \<open>The value of a variable that is not falsy.\<close>

fun text_of :: "jsstring option \<Rightarrow> jsstring" where
  "text_of None = []"
| "text_of (Some s) = s"

text \<open>
  \<^verbatim>\<open>const FROM = RESEND_FROM || "YOMOO ....AI.. <daily@yomoo.net>"\<close> and
  \<^verbatim>\<open>const SUBJECT = "YOMOO ....AI.. - " + EPISODE_DATE\<close>, where the dots stand for the
  code units 6BCF, 65E5 and 5FEB, 9001 and the dash is the code unit 2014.
\<close>

definition brand :: jsstring where
  "brand = js ''YOMOO '' @ [0x6BCF, 0x65E5] @ js ''AI'' @ [0x5FEB, 0x9001]"

definition make_config :: "environment \<Rightarrow> jsstring \<Rightarrow> config" where
  "make_config env template =
     \<lparr>RESEND_API_KEY = text_of (env_RESEND_API_KEY env),
      WORKER_URL = text_of (env_WORKER_URL env),
      WORKER_SECRET = text_of (env_WORKER_SECRET env),
      FROM = (if falsy (env_RESEND_FROM env) then brand @ js '' <daily@yomoo.net>''
              else text_of (env_RESEND_FROM env)),
      SUBJECT = brand @ js '' '' @ [0x2014] @ js '' '' @ text_of (env_EPISODE_DATE env),
      emailTemplate = template\<rparr>"

text \<open>\<^verbatim>\<open>WORKER_URL.replace(/\/$/, "")\<close>: one slash at the end of the input is removed.\<close>

definition stripTrailingSlash :: "jsstring \<Rightarrow> jsstring" where
  "stripTrailingSlash s = (if s \<noteq> [] \<and> last s = cu CHR ''/'' then butlast s else s)"

text \<open>\<^verbatim>\<open>valid.map(sub => buildEmailPayload(sub, workerUrl))\<close>: the first exception ends
  the mapping.\<close>

fun build_all ::
  "hmac_function \<Rightarrow> config \<Rightarrow> jsstring \<Rightarrow> subscriber list \<Rightarrow> exn + email_message list" where
  "build_all hmac cfg workerUrl [] = Inr []"
| "build_all hmac cfg workerUrl (sub # subs) =
     (case buildEmailPayload hmac cfg sub workerUrl of
        Inl x \<Rightarrow> Inl x
      | Inr m \<Rightarrow>
          (case build_all hmac cfg workerUrl subs of
             Inl x \<Rightarrow> Inl x
           | Inr ms \<Rightarrow> Inr (m # ms)))"

text \<open>
  \<open>main\<close> of \<^verbatim>\<open>part_000\<close> (lines 126-197). Its result is an exception, or \<open>Some c\<close> when
  it called \<^verbatim>\<open>process.exit(c)\<close>, or \<open>None\<close> when it returned.
  \<^verbatim>\<open>
  const workerUrl = WORKER_URL.replace(/\/$/, "");
  console.log("Fetching subscribers...");
  const subResp = await fetchJson(workerUrl + "/subscribers", { ... });
  if (subResp.status !== 200) {
    console.error("Failed to fetch subscribers:", subResp.status);
    process.exit(1);
  }
  const allSubscribers = subResp.data;
  console.log("Found", allSubscribers.length, "subscriber(s)");
  const valid = allSubscribers.filter(s => isValidEmail(s.email));
  const invalid = allSubscribers.filter(s => !isValidEmail(s.email));
  if (invalid.length > 0) {
    console.log("Skipping", invalid.length, "invalid email(s):", ...);
  }
  if (valid.length === 0) {
    console.log("No valid subscribers, done");
    return;
  }
  const allEmails = valid.map(sub => buildEmailPayload(sub, workerUrl));
  let sent = 0, failed = 0;
  for (...) { ... }
  console.log("Done:", sent, "sent,", failed, "failed, out of", valid.length);
  if (failed > 0) process.exit(1);
  \<close>
\<close>

definition main ::
  "hmac_function \<Rightarrow> config \<Rightarrow> world \<Rightarrow> run_state \<Rightarrow> (exn + nat option) \<times> run_state" where
  "main hmac cfg w st =
     (let workerUrl = stripTrailingSlash (WORKER_URL cfg);
          st1 = console_log FetchingSubscribers st
      in case fetchJson_directory w
                (GetSubscribers (workerUrl @ js ''/subscribers'') (WORKER_SECRET cfg)) st1 of
           (Inl x, st2) \<Rightarrow> (Inl x, st2)
         | (Inr (code, allSubscribers), st2) \<Rightarrow>
             if code \<noteq> 200 then (Inr (Some 1), console_error (FetchFailed code) st2)
             else
               (let st3 = console_log (Found (length allSubscribers)) st2;
                    valid = filter (\<lambda>s. isValidEmail (sub_email s)) allSubscribers;
                    invalid = filter (\<lambda>s. \<not> isValidEmail (sub_email s)) allSubscribers;
                    st4 = (if length invalid > 0 then
                             console_log (SkippingInvalid (length invalid)
                               (map (\<lambda>s. maskEmail (sub_email s)) invalid)) st3
                           else st3)
                in if length valid = 0 then (Inr None, console_log NoValidSubscribers st4)
                   else
                     (case build_all hmac cfg workerUrl valid of
                        Inl x \<Rightarrow> (Inl x, st4)
                      | Inr allEmails \<Rightarrow>
                          (case deliver w (RESEND_API_KEY cfg) allEmails
                                  (st4\<lparr>sent := 0, failed := 0\<rparr>) of
                             (Inl x, st5) \<Rightarrow> (Inl x, st5)
                           | (Inr _, st5) \<Rightarrow>
                               (let st6 = console_log
                                            (Done (sent st5) (failed st5) (length valid)) st5
                                in if failed st6 > 0 then (Inr (Some 1), st6)
                                   else (Inr None, st6))))))"

text \<open>
  The script as a whole: the check of the environment, the check for the template, and
  \<^verbatim>\<open>main().catch(err => { console.error(err); process.exit(1); })\<close>. The result is the
  exit status of the process and the final state. \<open>files\<close> gives the content of the
  file at a path, if there is one; the path is \<^verbatim>\<open>path.join("episodes", EPISODE_DATE,
  "email.html")\<close>, taken as the three parts joined by \<open>/\<close>. A \<open>main\<close> that returns lets
  the process end with status 0.
\<close>

definition exit_status :: "(exn + nat option) \<times> run_state \<Rightarrow> nat \<times> run_state" where
  "exit_status r =
     (case r of
        (Inl err, st) \<Rightarrow> (1, console_error (Uncaught err) st)
      | (Inr (Some c), st) \<Rightarrow> (c, st)
      | (Inr None, st) \<Rightarrow> (0, st))"

definition program ::
  "hmac_function \<Rightarrow> environment \<Rightarrow> (jsstring \<Rightarrow> jsstring option) \<Rightarrow> world \<Rightarrow> nat \<times> run_state" where
  "program hmac env files w =
     (if falsy (env_RESEND_API_KEY env) \<or> falsy (env_WORKER_URL env) \<or>
         falsy (env_WORKER_SECRET env) \<or> falsy (env_EPISODE_DATE env)
      then (0, console_log MissingEnv st0)
      else
        (let emailPath = js ''episodes/'' @ text_of (env_EPISODE_DATE env) @ js ''/email.html'' in
         case files emailPath of
           None \<Rightarrow> (1, console_error (TemplateNotFound emailPath) st0)
         | Some template \<Rightarrow> exit_status (main hmac (make_config env template) w st0)))"

text \<open>
  \<open>main\<close> of \<^verbatim>\<open>send-newsletter.js\<close> (lines 84-151): no validation, the payload built
  inline, and the loop without fallback.
\<close>

fun build_all_nl ::
  "hmac_function \<Rightarrow> config \<Rightarrow> jsstring \<Rightarrow> subscriber list \<Rightarrow> exn + email_message list" where
  "build_all_nl hmac cfg workerUrl [] = Inr []"
| "build_all_nl hmac cfg workerUrl (sub # subs) =
     (case buildEmailPayload_nl hmac cfg sub workerUrl of
        Inl x \<Rightarrow> Inl x
      | Inr m \<Rightarrow>
          (case build_all_nl hmac cfg workerUrl subs of
             Inl x \<Rightarrow> Inl x
           | Inr ms \<Rightarrow> Inr (m # ms)))"

definition main_nl ::
  "hmac_function \<Rightarrow> config \<Rightarrow> world \<Rightarrow> run_state \<Rightarrow> (exn + nat option) \<times> run_state" where
  "main_nl hmac cfg w st =
     (let workerUrl = stripTrailingSlash (WORKER_URL cfg);
          st1 = console_log FetchingSubscribers st
      in case fetchJson_directory w
                (GetSubscribers (workerUrl @ js ''/subscribers'') (WORKER_SECRET cfg)) st1 of
           (Inl x, st2) \<Rightarrow> (Inl x, st2)
         | (Inr (code, subscribers), st2) \<Rightarrow>
             if code \<noteq> 200 then (Inr (Some 1), console_error (FetchFailed code) st2)
             else
               (let st3 = console_log (Found (length subscribers)) st2
                in if length subscribers = 0 then (Inr None, console_log NoSubscribers st3)
                   else
                     (case build_all_nl hmac cfg workerUrl subscribers of
                        Inl x \<Rightarrow> (Inl x, st3)
                      | Inr allEmails \<Rightarrow>
                          (case deliver_nl w (RESEND_API_KEY cfg) allEmails
                                  (st3\<lparr>sent := 0, failed := 0\<rparr>) of
                             (Inl x, st5) \<Rightarrow> (Inl x, st5)
                           | (Inr _, st5) \<Rightarrow>
                               (let st6 = console_log
                                            (Done (sent st5) (failed st5) (length subscribers)) st5
                                in if failed st6 > 0 then (Inr (Some 1), st6)
                                   else (Inr None, st6))))))"

definition program_nl ::
  "hmac_function \<Rightarrow> environment \<Rightarrow> (jsstring \<Rightarrow> jsstring option) \<Rightarrow> world \<Rightarrow> nat \<times> run_state" where
  "program_nl hmac env files w =
     (if falsy (env_RESEND_API_KEY env) \<or> falsy (env_WORKER_URL env) \<or>
         falsy (env_WORKER_SECRET env) \<or> falsy (env_EPISODE_DATE env)
      then (0, console_log MissingEnv st0)
      else
        (let emailPath = js ''episodes/'' @ text_of (env_EPISODE_DATE env) @ js ''/email.html'' in
         case files emailPath of
           None \<Rightarrow> (1, console_error (TemplateNotFound emailPath) st0)
         | Some template \<Rightarrow> exit_status (main_nl hmac (make_config env template) w st0)))"

chapter \<open>Vocabulary of the statements\<close>

text \<open>What one rate-limited attempt \<open>k\<close> of \<open>sendBatch\<close> leaves in the trace: the
  request, the log line and the wait of \<open>k * 3000\<close> ms.\<close>

definition batch_retry_events :: "jsstring \<Rightarrow> email_message list \<Rightarrow> int \<Rightarrow> event list" where
  "batch_retry_events key emails k =
     [Request (PostBatch key emails), Log (RateLimited (k * 3000)), Sleep (k * 3000)]"

text \<open>The slices the loop takes, from the index \<open>i\<close> on: the loop header and the
  \<open>slice\<close> of \<open>batch_loop\<close> without the body.\<close>

function batches_from :: "'a list \<Rightarrow> nat \<Rightarrow> 'a list list" where
  "batches_from xs i =
     (if i < length xs then slice xs i (i + BATCH_SIZE) # batches_from xs (i + BATCH_SIZE)
      else [])"
  by pat_completeness auto
termination
  by (relation "measure (\<lambda>(xs, i). length xs - i)") (auto simp: BATCH_SIZE_def)

declare batches_from.simps [simp del]

text \<open>The batches of a message list, in processing order.\<close>

definition batches :: "'a list \<Rightarrow> 'a list list" where
  "batches xs = batches_from xs 0"

text \<open>Handling a list of batches one after the other: the \<open>k\<close>-th of \<open>n\<close> is announced,
  handed to \<open>body\<close>, and followed by the pause of one second unless it is the last.\<close>

fun run_batches ::
  "(email_message list \<Rightarrow> run_state \<Rightarrow> (exn + unit) \<times> run_state) \<Rightarrow> nat \<Rightarrow> nat \<Rightarrow>
   email_message list list \<Rightarrow> run_state \<Rightarrow> (exn + unit) \<times> run_state" where
  "run_batches body k n [] st = (Inr (), st)"
| "run_batches body k n (b # bs) st =
     (case body b (console_log (SendingBatch k n (length b)) st) of
        (Inl x, st') \<Rightarrow> (Inl x, st')
      | (Inr _, st') \<Rightarrow>
          run_batches body (k + 1) n bs (if bs = [] then st' else sleep 1000 st'))"

text \<open>
  The lines that report the fate of one message: whether it was sent, and the masked
  address.
\<close>

fun outcome :: "event \<Rightarrow> (bool \<times> jsstring) option" where
  "outcome (Log (SentTo m)) = Some (True, m)"
| "outcome (LogError (FailedForStatus m s)) = Some (False, m)"
| "outcome (LogError (FailedFor m)) = Some (False, m)"
| "outcome _ = None"

fun outcomes :: "event list \<Rightarrow> (bool \<times> jsstring) list" where
  "outcomes [] = []"
| "outcomes (e # evs) = (case outcome e of None \<Rightarrow> outcomes evs | Some x \<Rightarrow> x # outcomes evs)"

text \<open>
  \<open>accounted msgs st st'\<close>: between the states \<open>st\<close> and \<open>st'\<close> the run reported exactly
  one fate for each message of \<open>msgs\<close>, in their order, and raised \<open>sent\<close> by the number
  of those reported sent and \<open>failed\<close> by the number of those reported failed.
\<close>

definition accounted :: "email_message list \<Rightarrow> run_state \<Rightarrow> run_state \<Rightarrow> bool" where
  "accounted msgs st st' \<longleftrightarrow>
     (\<exists>evs. trace st' = trace st @ evs \<and>
            map snd (outcomes evs) = map (\<lambda>e. maskEmail (msg_to e)) msgs \<and>
            sent st' = sent st + length (filter fst (outcomes evs)) \<and>
            failed st' = failed st + length (filter (\<lambda>x. \<not> fst x) (outcomes evs)))"



text \<open>A state with more history: \<open>t\<close> in front of the trace, \<open>s\<close> and \<open>f\<close> more on the
  counters.\<close>

definition with_history :: "event list \<Rightarrow> nat \<Rightarrow> nat \<Rightarrow> run_state \<Rightarrow> run_state" where
  "with_history t s f st = st\<lparr>trace := t @ trace st, sent := s + sent st, failed := f + failed st\<rparr>"

text \<open>The language of a regular expression, for the proofs about \<open>regex_test\<close>.\<close>

definition conc :: "'a list set \<Rightarrow> 'a list set \<Rightarrow> 'a list set" where
  "conc A B = {u @ v | u v. u \<in> A \<and> v \<in> B}"

inductive_set star :: "'a list set \<Rightarrow> 'a list set" for A where
  star_nil: "[] \<in> star A"
| star_step: "u \<in> A \<Longrightarrow> v \<in> star A \<Longrightarrow> u @ v \<in> star A"

fun lang :: "regex \<Rightarrow> jsstring set" where
  "lang Zero = {}"
| "lang One = {[]}"
| "lang (Lit c) = {[c]}"
| "lang (NotOneOf items) = {[c] | c. \<not> list_ex (\<lambda>i. item_matches i c) items}"
| "lang (Alt r s) = lang r \<union> lang s"
| "lang (Seq r s) = conc (lang r) (lang s)"
| "lang (Star r) = star (lang r)"
| "lang (Plus r) = conc (lang r) (star (lang r))"

text \<open>A code unit that is neither white space nor \<open>@\<close>.\<close>

definition plain :: "jschar \<Rightarrow> bool" where
  "plain c \<longleftrightarrow> \<not> isWhiteSpace c \<and> c \<noteq> cu CHR ''@''"

text \<open>The strings that claim C7 describes, in its words: a local part, an \<open>@\<close> and a
  domain, both without white space and \<open>@\<close>, the domain containing a dot.\<close>

definition claimed_valid :: "jsstring \<Rightarrow> bool" where
  "claimed_valid s \<longleftrightarrow>
     (\<exists>lcl dmn. s = lcl @ js ''@'' @ dmn \<and> lcl \<noteq> [] \<and> list_all plain lcl \<and>
        list_all plain dmn \<and> cu CHR ''.'' \<in> set dmn)"

text \<open>
  \<open>reaches_delivery hmac cfg w valid allEmails\<close>: with the configuration \<open>cfg\<close> and the
  world \<open>w\<close>, \<open>main\<close> gets as far as the delivery loop, with the valid subscribers
  \<open>valid\<close> and their messages \<open>allEmails\<close>: the directory answers 200, some subscriber
  is valid and the payloads are built.
\<close>

definition reaches_delivery ::
  "hmac_function \<Rightarrow> config \<Rightarrow> world \<Rightarrow> subscriber list \<Rightarrow> email_message list \<Rightarrow> bool" where
  "reaches_delivery hmac cfg w valid allEmails \<longleftrightarrow>
     (\<exists>subs. directory w = Resolved (200, subs) \<and>
        valid = filter (\<lambda>s. isValidEmail (sub_email s)) subs \<and> valid \<noteq> [] \<and>
        build_all hmac cfg (stripTrailingSlash (WORKER_URL cfg)) valid = Inr allEmails)"

text \<open>The state in which \<open>main\<close> enters the delivery loop, when started in \<open>st\<close> and told
  of the subscribers \<open>subs\<close>.\<close>

definition before_delivery :: "config \<Rightarrow> subscriber list \<Rightarrow> run_state \<Rightarrow> run_state" where
  "before_delivery cfg subs st =
     (let st2 = emit (Request (GetSubscribers
                  (stripTrailingSlash (WORKER_URL cfg) @ js ''/subscribers'') (WORKER_SECRET cfg)))
                  (console_log FetchingSubscribers st);
          st3 = console_log (Found (length subs)) st2;
          invalid = filter (\<lambda>s. \<not> isValidEmail (sub_email s)) subs;
          st4 = (if length invalid > 0 then
                   console_log (SkippingInvalid (length invalid)
                     (map (\<lambda>s. maskEmail (sub_email s)) invalid)) st3
                 else st3)
      in st4\<lparr>sent := 0, failed := 0\<rparr>)"

chapter \<open>Inputs used in examples\<close>

text \<open>A provider that answers every request with 429.\<close>

definition world_429 :: world where
  "world_429 = \<lparr>directory = Rejected,
     provider = (\<lambda>k. Resolved \<lparr>resp_status = 429, resp_data = JStr (js ''Too Many Requests'')\<rparr>)\<rparr>"

text \<open>A provider that answers 429 twice, then 200.\<close>

definition world_retry :: world where
  "world_retry = \<lparr>directory = Rejected,
     provider = (\<lambda>k. if k < 2 then Resolved \<lparr>resp_status = 429, resp_data = JNull\<rparr>
                     else Resolved \<lparr>resp_status = 200, resp_data = JArr []\<rparr>)\<rparr>"

text \<open>Two messages, and a provider that refuses the first request (the batch), accepts
  the second and refuses all others.\<close>

definition msg_a :: email_message where
  "msg_a = \<lparr>msg_from = js ''news@x.org'', msg_to = js ''a@b.co'', msg_subject = js ''Hi'',
            msg_html = js ''<p>Hi</p>''\<rparr>"

definition msg_b :: email_message where
  "msg_b = \<lparr>msg_from = js ''news@x.org'', msg_to = js ''carol@d.io'', msg_subject = js ''Hi'',
            msg_html = js ''<p>Hi</p>''\<rparr>"

definition world_fallback :: world where
  "world_fallback = \<lparr>directory = Rejected,
     provider = (\<lambda>k. if k = 1 then Resolved \<lparr>resp_status = 200, resp_data = JNull\<rparr>
                     else Resolved \<lparr>resp_status = 500, resp_data = JNull\<rparr>)\<rparr>"

text \<open>The state in which the delivery of \<open>msg_a\<close> and \<open>msg_b\<close> to \<open>world_fallback\<close> ends.\<close>

definition st_fallback :: run_state where
  "st_fallback =
     \<lparr>calls = 3,
      trace =
        [Log (SendingBatch 1 1 2),
         Request (PostBatch (js ''re_key'') [msg_a, msg_b]),
         Log (BatchFailedFallingBack (Some 500)),
         Request (PostSingle (js ''re_key'') msg_a),
         Log (SentTo (js ''*@b.co'')), Sleep 600,
         Request (PostSingle (js ''re_key'') msg_b),
         LogError (FailedForStatus (js ''c***l@d.io'') (Some 500)), Sleep 600],
      sent = 1, failed = 1\<rparr>"




text \<open>A digest function that returns the two bytes AB and 01 whatever its arguments, a
  configuration whose template holds the marker twice, and a subscriber.\<close>

definition hmac0 :: hmac_function where
  "hmac0 = (\<lambda>secret message. [0xAB, 0x01])"


definition sub0 :: subscriber where
  "sub0 = \<lparr>sub_email = js ''a@b.co''\<rparr>"

text \<open>
  An environment with all variables set, a file system with the template of that day,
  the configuration and the message that result for the subscriber \<open>sub0\<close>; a world
  whose provider rejects every request, one whose provider accepts every request, one
  whose directory has no valid address; what a run has logged once it has fetched one
  subscriber; and an environment without the secret.
\<close>

definition env0 :: environment where
  "env0 = \<lparr>env_RESEND_API_KEY = Some (js ''re_key''), env_WORKER_URL = Some (js ''https://w.example/''),
     env_WORKER_SECRET = Some (js ''s3cret''), env_RESEND_FROM = Some (js ''news@x.org''),
     env_EPISODE_DATE = Some (js ''2025-01-01'')\<rparr>"

definition files0 :: "jsstring \<Rightarrow> jsstring option" where
  "files0 path = (if path = js ''episodes/2025-01-01/email.html''
     then Some (js ''Bye: {{UNSUBSCRIBE_URL}}'') else None)"

definition cfg_run :: config where
  "cfg_run = make_config env0 (js ''Bye: {{UNSUBSCRIBE_URL}}'')"

definition msg_run :: email_message where
  "msg_run = \<lparr>msg_from = js ''news@x.org'', msg_to = js ''a@b.co'', msg_subject = SUBJECT cfg_run,
     msg_html = js ''Bye: https://w.example/unsubscribe?email=a%40b.co&token=ab01''\<rparr>"

definition world_rejecting :: world where
  "world_rejecting = \<lparr>directory = Resolved (200, [sub0]), provider = (\<lambda>k. Rejected)\<rparr>"

definition world_accepting :: world where
  "world_accepting = \<lparr>directory = Resolved (200, [sub0]),
     provider = (\<lambda>k. Resolved \<lparr>resp_status = 200, resp_data = JNull\<rparr>)\<rparr>"

definition world_nobody :: world where
  "world_nobody = \<lparr>directory = Resolved (200, [\<lparr>sub_email = js ''nobody''\<rparr>]),
     provider = (\<lambda>k. Rejected)\<rparr>"

definition st_fetched :: "event list" where
  "st_fetched =
     [Log FetchingSubscribers,
      Request (GetSubscribers (js ''https://w.example/subscribers'') (js ''s3cret'')),
      Log (Found 1)]"

definition env_missing :: environment where
  "env_missing = env0\<lparr>env_WORKER_SECRET := None\<rparr>"

chapter \<open>Properties\<close>

section \<open>Strings\<close>

lemma split_no_sep: "sep \<notin> set s \<Longrightarrow> split s sep = [s]"
  by (induction s) auto

lemma split_at_sep: "sep \<notin> set a \<Longrightarrow> split (a @ sep # b) sep = a # split b sep"
  by (induction a) auto

lemma jsrepeat_single: "jsrepeat [c] n = replicate n c"
  by (induction n) (auto simp: jsrepeat_def)

section \<open>Masking\<close>

lemma maskEmail_no_at:
  assumes "cu CHR ''@'' \<notin> set s"
  shows "maskEmail s = js ''***''"
  using assms by (simp add: maskEmail_def split_no_sep)

lemma maskEmail_one_at:
  assumes "cu CHR ''@'' \<notin> set lcl" and "cu CHR ''@'' \<notin> set dmn" and "dmn \<noteq> []"
  shows "maskEmail (lcl @ js ''@'' @ dmn) =
     (if length lcl \<le> 2 then replicate (length lcl) (cu CHR ''*'')
      else [hd lcl] @ replicate (length lcl - 2) (cu CHR ''*'') @ [last lcl])
     @ js ''@'' @ dmn"
proof -
  have sp: "split (lcl @ js ''@'' @ dmn) (cu CHR ''@'') = [lcl, dmn]"
    using assms by (simp add: js_def split_at_sep split_no_sep)
  have ends: "lcl ! 0 = hd lcl \<and> lcl ! (length lcl - 1) = last lcl" if "\<not> length lcl \<le> 2"
    using that by (cases lcl) (auto simp: last_conv_nth)
  show ?thesis
    unfolding maskEmail_def sp
    using assms(3) ends
    by (simp add: js_def jsrepeat_single del: One_nat_def)
qed

text \<open>
  Claim C8, as stated, fails: the claim promises that every address with an \<open>@\<close> keeps
  the first and last character of a local part longer than two characters and shows its
  domain. For \<open>alice@\<close> the split gives the pieces \<open>alice\<close> and the empty string, the
  guard \<open>!domain\<close> fires, and the result is the sentinel \<open>***\<close>, not \<open>a***e@\<close>.
\<close>

theorem maskEmail_empty_domain_counterexample:
  "maskEmail (js ''alice@'') = js ''***'' \<and> maskEmail (js ''alice@'') \<noteq> js ''a***e@''"
  by (simp add: maskEmail_def js_def cu_def)

text \<open>
  Claim C8, amended: the three examples hold, an input with no \<open>@\<close> masks to \<open>***\<close>,
  and for an address with exactly one \<open>@\<close> and a non-empty domain the result is the
  masked local part (all stars when it has at most two characters, otherwise its first
  character, stars, its last character), the \<open>@\<close> and the whole domain.
\<close>

theorem maskEmail_spec:
  "maskEmail (js ''ab@x.com'') = js ''**@x.com'' \<and>
   maskEmail (js ''a@x.com'') = js ''*@x.com'' \<and>
   maskEmail (js ''alice@example.com'') = js ''a***e@example.com'' \<and>
   (cu CHR ''@'' \<notin> set s \<longrightarrow> maskEmail s = js ''***'') \<and>
   (cu CHR ''@'' \<notin> set lcl \<and> cu CHR ''@'' \<notin> set dmn \<and> dmn \<noteq> [] \<longrightarrow>
     maskEmail (lcl @ js ''@'' @ dmn) =
       (if length lcl \<le> 2 then replicate (length lcl) (cu CHR ''*'')
        else [hd lcl] @ replicate (length lcl - 2) (cu CHR ''*'') @ [last lcl])
       @ js ''@'' @ dmn)"
proof -
  have "maskEmail (js ''ab@x.com'') = js ''**@x.com''"
    by (simp add: maskEmail_def js_def cu_def jsrepeat_def)
  moreover have "maskEmail (js ''a@x.com'') = js ''*@x.com''"
    by (simp add: maskEmail_def js_def cu_def jsrepeat_def)
  moreover have "maskEmail (js ''alice@example.com'') = js ''a***e@example.com''"
    by (simp add: maskEmail_def js_def cu_def jsrepeat_def)
  ultimately show ?thesis
    using maskEmail_no_at [of s] maskEmail_one_at [of lcl dmn] by blast
qed

text \<open>
  Claim C8, witness: the amended statement at the input \<open>nobody\<close>, which has no \<open>@\<close>,
  and at the local part \<open>bob\<close> with the domain \<open>x.org\<close>.
\<close>

theorem maskEmail_spec_witness:
  "cu CHR ''@'' \<notin> set (js ''nobody'') \<and> maskEmail (js ''nobody'') = js ''***'' \<and>
   cu CHR ''@'' \<notin> set (js ''bob'') \<and> cu CHR ''@'' \<notin> set (js ''x.org'') \<and> js ''x.org'' \<noteq> [] \<and>
   maskEmail (js ''bob'' @ js ''@'' @ js ''x.org'') = js ''b*b@x.org''"
proof -
  have h1: "cu CHR ''@'' \<notin> set (js ''nobody'')"
    by (simp add: js_def cu_def)
  have h2: "cu CHR ''@'' \<notin> set (js ''bob'') \<and> cu CHR ''@'' \<notin> set (js ''x.org'') \<and> js ''x.org'' \<noteq> []"
    by (simp add: js_def cu_def)
  have len: "length (js ''bob'') = 3" "hd (js ''bob'') = cu CHR ''b''" "last (js ''bob'') = cu CHR ''b''"
    by (simp_all add: js_def)
  from maskEmail_spec [of "js ''nobody''" "js ''bob''" "js ''x.org''"] h1 h2
  have "maskEmail (js ''nobody'') = js ''***''"
    and "maskEmail (js ''bob'' @ js ''@'' @ js ''x.org'') =
       (if length (js ''bob'') \<le> 2 then replicate (length (js ''bob'')) (cu CHR ''*'')
        else [hd (js ''bob'')] @ replicate (length (js ''bob'') - 2) (cu CHR ''*'') @ [last (js ''bob'')])
       @ js ''@'' @ js ''x.org''"
    by blast+
  then show ?thesis
    using h1 h2 by (simp add: len) (simp add: js_def)
qed

section \<open>The delivery client\<close>

lemma calls_emit [simp]: "calls (emit e st) = calls st"
  and trace_emit [simp]: "trace (emit e st) = trace st @ [e]"
  and sent_emit [simp]: "sent (emit e st) = sent st"
  and failed_emit [simp]: "failed (emit e st) = failed st"
  by (simp_all add: emit_def)

lemma fetchJson_Resolved:
  "provider w (calls st) = Resolved resp \<Longrightarrow>
   fetchJson w req st = (Inr resp, emit (Request req) (st\<lparr>calls := calls st + 1\<rparr>))"
  by (simp add: fetchJson_def)

lemma fetchJson_Rejected:
  "provider w (calls st) = Rejected \<Longrightarrow>
   fetchJson w req st = (Inl NetworkError, emit (Request req) (st\<lparr>calls := calls st + 1\<rparr>))"
  by (simp add: fetchJson_def)

lemma sendBatch_loop_nl_eq:
  "sendBatch_loop_nl w key emails maxRetries attempt st =
   sendBatch_loop w key emails maxRetries attempt st"
proof (induction w key emails maxRetries attempt st rule: sendBatch_loop.induct)
  case (1 w key emails maxRetries attempt st)
  show ?case
    apply (subst sendBatch_loop_nl.simps)
    apply (subst sendBatch_loop.simps)
    using 1
    apply (auto split: prod.splits sum.splits simp: Let_def)
    done
qed

lemma sendBatch_loop_retries:
  assumes "\<forall>i<n. \<exists>d. provider w (calls st + i) = Resolved \<lparr>resp_status = 429, resp_data = d\<rparr>"
    and "provider w (calls st + n) = Resolved r"
    and "200 \<le> resp_status r" and "resp_status r < 300"
    and "a + int n \<le> m"
  shows "sendBatch_loop w key emails m a st =
     (Inr \<lparr>success = True, status = None, data = Some (resp_data r)\<rparr>,
      st\<lparr>calls := calls st + n + 1,
         trace := trace st @ concat (map (batch_retry_events key emails) [a..a + int n - 1])
                  @ [Request (PostBatch key emails)]\<rparr>)"
  using assms
proof (induction n arbitrary: a st)
  case 0
  then show ?case
    by (subst sendBatch_loop.simps) (simp add: fetchJson_Resolved emit_def)
next
  case (Suc n)
  from Suc.prems(1) obtain d where d: "provider w (calls st) = Resolved \<lparr>resp_status = 429, resp_data = d\<rparr>"
    by force
  let ?st = "sleep (a * 3000) (console_log (RateLimited (a * 3000))
      (emit (Request (PostBatch key emails)) (st\<lparr>calls := calls st + 1\<rparr>)))"
  have c: "calls ?st = calls st + 1"
    by (simp add: sleep_def console_log_def)
  have ih: "sendBatch_loop w key emails m (a + 1) ?st =
     (Inr \<lparr>success = True, status = None, data = Some (resp_data r)\<rparr>,
      ?st\<lparr>calls := calls ?st + n + 1,
         trace := trace ?st @ concat (map (batch_retry_events key emails) [a + 1..a + 1 + int n - 1])
                  @ [Request (PostBatch key emails)]\<rparr>)"
  proof (rule Suc.IH)
    show "\<forall>i<n. \<exists>d. provider w (calls ?st + i) = Resolved \<lparr>resp_status = 429, resp_data = d\<rparr>"
      using Suc.prems(1) unfolding c by (metis Suc_less_eq add_Suc_right add_Suc_shift Suc_eq_plus1)
    show "provider w (calls ?st + n) = Resolved r"
      using Suc.prems(2) unfolding c by simp
    show "200 \<le> resp_status r" "resp_status r < 300" by fact+
    show "a + 1 + int n \<le> m" using Suc.prems(5) by simp
  qed
  have up: "[a..a + int (Suc n) - 1] = a # [a + 1..a + 1 + int n - 1]"
    by (simp add: upto_rec1 [of a] add.commute add.left_commute)
  have step: "sendBatch_loop w key emails m a st = sendBatch_loop w key emails m (a + 1) ?st"
    using Suc.prems(5)
    by (subst sendBatch_loop.simps) (simp add: fetchJson_Resolved [OF d] Let_def)
  show ?case
    unfolding step ih up
    by (simp add: sleep_def console_log_def emit_def batch_retry_events_def [abs_def])
qed


lemma sendBatch_loop_all_429:
  assumes "\<forall>i\<le>n. \<exists>d. provider w (calls st + i) = Resolved \<lparr>resp_status = 429, resp_data = d\<rparr>"
    and "provider w (calls st + n) = Resolved r"
    and "a + int n = m"
  shows "sendBatch_loop w key emails m a st =
     (Inr \<lparr>success = False, status = Some 429, data = Some (resp_data r)\<rparr>,
      st\<lparr>calls := calls st + n + 1,
         trace := trace st @ concat (map (batch_retry_events key emails) [a..a + int n - 1])
                  @ [Request (PostBatch key emails)]\<rparr>)"
  using assms
proof (induction n arbitrary: a st)
  case 0
  from "0.prems"(1) obtain d where "provider w (calls st) = Resolved \<lparr>resp_status = 429, resp_data = d\<rparr>"
    by force
  with "0.prems"(2) have r: "resp_status r = 429" by auto
  show ?case
    using "0.prems"(2,3) r
    by (subst sendBatch_loop.simps) (simp add: fetchJson_Resolved emit_def)
next
  case (Suc n)
  from Suc.prems(1) obtain d where d: "provider w (calls st) = Resolved \<lparr>resp_status = 429, resp_data = d\<rparr>"
    by force
  let ?st = "sleep (a * 3000) (console_log (RateLimited (a * 3000))
      (emit (Request (PostBatch key emails)) (st\<lparr>calls := calls st + 1\<rparr>)))"
  have c: "calls ?st = calls st + 1"
    by (simp add: sleep_def console_log_def)
  have ih: "sendBatch_loop w key emails m (a + 1) ?st =
     (Inr \<lparr>success = False, status = Some 429, data = Some (resp_data r)\<rparr>,
      ?st\<lparr>calls := calls ?st + n + 1,
         trace := trace ?st @ concat (map (batch_retry_events key emails) [a + 1..a + 1 + int n - 1])
                  @ [Request (PostBatch key emails)]\<rparr>)"
  proof (rule Suc.IH)
    show "\<forall>i\<le>n. \<exists>d. provider w (calls ?st + i) = Resolved \<lparr>resp_status = 429, resp_data = d\<rparr>"
    proof (intro allI impI)
      fix i assume "i \<le> n"
      then have "Suc i \<le> Suc n" by simp
      with Suc.prems(1) have "\<exists>d. provider w (calls st + Suc i) = Resolved \<lparr>resp_status = 429, resp_data = d\<rparr>"
        by blast
      then show "\<exists>d. provider w (calls ?st + i) = Resolved \<lparr>resp_status = 429, resp_data = d\<rparr>"
        unfolding c by simp
    qed
    show "provider w (calls ?st + n) = Resolved r"
      using Suc.prems(2) unfolding c by simp
    show "a + 1 + int n = m" using Suc.prems(3) by simp
  qed
  have up: "[a..a + int (Suc n) - 1] = a # [a + 1..a + 1 + int n - 1]"
    by (simp add: upto_rec1 [of a] add.commute add.left_commute)
  have step: "sendBatch_loop w key emails m a st = sendBatch_loop w key emails m (a + 1) ?st"
    using Suc.prems(3)
    by (subst sendBatch_loop.simps) (simp add: fetchJson_Resolved [OF d] Let_def)
  show ?case
    unfolding step ih up
    by (simp add: sleep_def console_log_def emit_def batch_retry_events_def [abs_def])
qed

lemma upto_1_2: "[1..2] = [1, 2::int]"
  by (simp add: upto_rec1)

lemma sendBatch_sentinel:
  "maxRetries < 1 \<Longrightarrow>
   sendBatch w key emails maxRetries st =
     (Inr \<lparr>success = False, status = Some 429,
           data = Some (JStr (js ''Max retries exceeded''))\<rparr>, st)"
  unfolding sendBatch_def by (subst sendBatch_loop.simps) simp

text \<open>
  Claim C2 asks for the body \<open>Max retries exceeded\<close> after 429 on each of the three
  attempts. What \<open>sendBatch\<close> returns there is evaluated: the third 429 finds
  \<open>attempt < maxRetries\<close> false and leaves through the general failure return, with the
  provider's own body; the return after the loop is reached only for \<open>maxRetries < 1\<close>
  (lemma \<open>sendBatch_sentinel\<close>). Both variants do the same.
\<close>

theorem sendBatch_429_exhausted:
  "sendBatch world_429 key emails 3 st0 =
     (Inr \<lparr>success = False, status = Some 429,
           data = Some (JStr (js ''Too Many Requests''))\<rparr>,
      \<lparr>calls = 3,
       trace = [Request (PostBatch key emails), Log (RateLimited 3000), Sleep 3000,
                Request (PostBatch key emails), Log (RateLimited 6000), Sleep 6000,
                Request (PostBatch key emails)],
       sent = 0, failed = 0\<rparr>) \<and>
   JStr (js ''Too Many Requests'') \<noteq> JStr (js ''Max retries exceeded'') \<and>
   sendBatch_nl world_429 key emails 3 st0 = sendBatch world_429 key emails 3 st0"
proof -
  have "sendBatch_loop world_429 key emails 3 1 st0 =
     (Inr \<lparr>success = False, status = Some 429,
           data = Some (resp_data \<lparr>resp_status = 429, resp_data = JStr (js ''Too Many Requests'')\<rparr>)\<rparr>,
      st0\<lparr>calls := calls st0 + 2 + 1,
         trace := trace st0 @ concat (map (batch_retry_events key emails) [1..1 + int 2 - 1])
                  @ [Request (PostBatch key emails)]\<rparr>)"
    by (rule sendBatch_loop_all_429) (simp_all add: world_429_def)
  then show ?thesis
    by (simp add: sendBatch_def sendBatch_nl_def sendBatch_loop_nl_eq upto_1_2
        batch_retry_events_def st0_def js_def cu_def)
qed

text \<open>
  Claim C4: with \<open>maxRetries = 3\<close>, when the provider answers the batch request with 429,
  429 and then 200, \<open>sendBatch\<close> returns success, and what it did is exactly: request, wait
  3000 ms, request, wait 6000 ms, request (the wait after attempt \<open>k\<close> is \<open>k * 3000\<close> ms,
  lemma \<open>sendBatch_loop_retries\<close>). The same holds in both variants.
\<close>

theorem sendBatch_429_429_200:
  assumes "provider w (calls st) = Resolved \<lparr>resp_status = 429, resp_data = d1\<rparr>"
    and "provider w (calls st + 1) = Resolved \<lparr>resp_status = 429, resp_data = d2\<rparr>"
    and "provider w (calls st + 2) = Resolved \<lparr>resp_status = 200, resp_data = d3\<rparr>"
  shows "sendBatch w key emails 3 st =
     (Inr \<lparr>success = True, status = None, data = Some d3\<rparr>,
      st\<lparr>calls := calls st + 3,
         trace := trace st @
           [Request (PostBatch key emails), Log (RateLimited 3000), Sleep 3000,
            Request (PostBatch key emails), Log (RateLimited 6000), Sleep 6000,
            Request (PostBatch key emails)]\<rparr>) \<and>
     sendBatch_nl w key emails 3 st = sendBatch w key emails 3 st"
proof -
  have first: "\<forall>i<2. \<exists>d. provider w (calls st + i) = Resolved \<lparr>resp_status = 429, resp_data = d\<rparr>"
  proof (intro allI impI)
    fix i :: nat assume "i < 2"
    then have "i = 0 \<or> i = 1" by auto
    with assms(1,2) show "\<exists>d. provider w (calls st + i) = Resolved \<lparr>resp_status = 429, resp_data = d\<rparr>"
      by auto
  qed
  have "sendBatch_loop w key emails 3 1 st =
     (Inr \<lparr>success = True, status = None, data = Some (resp_data \<lparr>resp_status = 200, resp_data = d3\<rparr>)\<rparr>,
      st\<lparr>calls := calls st + 2 + 1,
         trace := trace st @ concat (map (batch_retry_events key emails) [1..1 + int 2 - 1])
                  @ [Request (PostBatch key emails)]\<rparr>)"
    by (rule sendBatch_loop_retries [OF first assms(3)]) simp_all
  then show ?thesis
    by (simp add: sendBatch_def sendBatch_nl_def sendBatch_loop_nl_eq upto_1_2 batch_retry_events_def)
qed

text \<open>Claim C4, witness: the provider \<open>world_retry\<close>, from the initial state.\<close>

theorem sendBatch_429_429_200_witness:
  "provider world_retry (calls st0) = Resolved \<lparr>resp_status = 429, resp_data = JNull\<rparr> \<and>
   provider world_retry (calls st0 + 1) = Resolved \<lparr>resp_status = 429, resp_data = JNull\<rparr> \<and>
   provider world_retry (calls st0 + 2) = Resolved \<lparr>resp_status = 200, resp_data = JArr []\<rparr> \<and>
   sendBatch world_retry [] [] 3 st0 =
     (Inr \<lparr>success = True, status = None, data = Some (JArr [])\<rparr>,
      \<lparr>calls = 3,
       trace = [Request (PostBatch [] []), Log (RateLimited 3000), Sleep 3000,
                Request (PostBatch [] []), Log (RateLimited 6000), Sleep 6000,
                Request (PostBatch [] [])],
       sent = 0, failed = 0\<rparr>)"
proof -
  have h1: "provider world_retry (calls st0) = Resolved \<lparr>resp_status = 429, resp_data = JNull\<rparr>"
    and h2: "provider world_retry (calls st0 + 1) = Resolved \<lparr>resp_status = 429, resp_data = JNull\<rparr>"
    and h3: "provider world_retry (calls st0 + 2) = Resolved \<lparr>resp_status = 200, resp_data = JArr []\<rparr>"
    by (simp_all add: world_retry_def st0_def)
  from sendBatch_429_429_200 [OF h1 h2 h3, of "[]" "[]"] h1 h2 h3
  show ?thesis by (simp add: st0_def)
qed

text \<open>
  Claim C10: the two variants' \<open>sendBatch\<close> agree on every message list, every
  \<open>maxRetries\<close>, every provider and every state: same result, same requests and waits
  (the trace is part of the state returned).
\<close>

theorem sendBatch_variants_equal:
  "sendBatch_nl w key emails maxRetries st = sendBatch w key emails maxRetries st"
  by (simp add: sendBatch_nl_def sendBatch_def sendBatch_loop_nl_eq)

section \<open>Batches\<close>

lemma batch_count_step:
  assumes "0 < (m::nat)"
  shows "Suc ((m - 50 + 49) div 50) = (m + 49) div 50"
proof (cases "50 \<le> m")
  case True
  then have "m + 49 = (m - 50 + 49) + 50" by simp
  then have "(m + 49) div 50 = ((m - 50 + 49) + 50) div 50" by simp
  also have "\<dots> = Suc ((m - 50 + 49) div 50)" by (simp only: div_add_self2)
  finally show ?thesis by simp
next
  case False
  then have "m - 50 = 0" by simp
  moreover have "(m + 49) div 50 = 1"
    using assms False by (intro div_nat_eqI) simp_all
  ultimately show ?thesis by simp
qed

lemma ceil_div50: "nat \<lceil>real n / 50\<rceil> = (n + 49) div 50"
proof -
  define k where "k = (n + 49) div 50"
  have "50 * k + (n + 49) mod 50 = n + 49"
    unfolding k_def by simp
  moreover have "(n + 49) mod 50 < 50" by simp
  ultimately have k1: "50 * k \<le> n + 49" and k2: "n \<le> 50 * k"
    by linarith+
  have "real n \<le> real (50 * k)"
    using k2 of_nat_le_iff by blast
  then have up: "real n / 50 \<le> of_int (int k)"
    by simp
  have "real (50 * k) \<le> real (n + 49)"
    using k1 of_nat_le_iff by blast
  then have lo: "of_int (int k) - 1 < real n / 50"
    by simp
  have "\<lceil>real n / 50\<rceil> = int k"
    using lo up by (rule ceiling_unique)
  then show ?thesis
    by (simp add: k_def)
qed
lemma batches_from_Nil_iff: "batches_from xs i = [] \<longleftrightarrow> \<not> i < length xs"
  by (subst batches_from.simps) simp

lemma concat_batches_from: "concat (batches_from xs i) = drop i xs"
proof (induction xs i rule: batches_from.induct)
  case (1 xs i)
  show ?case
  proof (cases "i < length xs")
    case True
    have "take BATCH_SIZE (drop i xs) @ drop (i + BATCH_SIZE) xs = drop i xs"
      by (metis add.commute append_take_drop_id drop_drop)
    with True 1 show ?thesis
      by (subst batches_from.simps) (simp add: slice_def)
  next
    case False
    then show ?thesis by (subst batches_from.simps) simp
  qed
qed

lemma length_batches_from:
  "length (batches_from xs i) = (length xs - i + 49) div 50"
proof (induction xs i rule: batches_from.induct)
  case (1 xs i)
  show ?case
  proof (cases "i < length xs")
    case True
    then have "length (batches_from xs i) = Suc ((length xs - i - 50 + 49) div 50)"
      using 1 by (subst batches_from.simps) (simp add: BATCH_SIZE_def)
    also have "\<dots> = (length xs - i + 49) div 50"
      using True by (intro batch_count_step) simp
    finally show ?thesis .
  next
    case False
    then show ?thesis by (subst batches_from.simps) simp
  qed
qed

lemma batches_from_sizes:
  "list_all (\<lambda>b. 0 < length b \<and> length b \<le> BATCH_SIZE) (batches_from xs i)"
proof (induction xs i rule: batches_from.induct)
  case (1 xs i)
  show ?case
    using 1 by (subst batches_from.simps) (simp add: slice_def BATCH_SIZE_def)
qed

lemma batch_loop_run_batches:
  "batch_loop body xs i st =
   run_batches body (i div BATCH_SIZE + 1) (nat \<lceil>real (length xs) / real BATCH_SIZE\<rceil>)
     (batches_from xs i) st"
proof (induction body xs i st rule: batch_loop.induct)
  case (1 body allEmails i st)
  show ?case
  proof (cases "i < length allEmails")
    case True
    have d: "(i + BATCH_SIZE) div BATCH_SIZE = i div BATCH_SIZE + 1"
      by (simp add: BATCH_SIZE_def)
    show ?thesis
      apply (subst batch_loop.simps)
      apply (subst batches_from.simps)
      using True 1
      apply (auto simp: Let_def d batches_from_Nil_iff split: prod.splits sum.splits)
      done
  next
    case False
    then show ?thesis
      by (subst batch_loop.simps, subst batches_from.simps) simp
  qed
qed


section \<open>Every message is accounted for\<close>

lemma sleep_fields [simp]:
  "calls (sleep ms st) = calls st" "trace (sleep ms st) = trace st @ [Sleep ms]"
  "sent (sleep ms st) = sent st" "failed (sleep ms st) = failed st"
  by (simp_all add: sleep_def)

lemma console_log_fields [simp]:
  "calls (console_log l st) = calls st" "trace (console_log l st) = trace st @ [Log l]"
  "sent (console_log l st) = sent st" "failed (console_log l st) = failed st"
  by (simp_all add: console_log_def)

lemma console_error_fields [simp]:
  "calls (console_error l st) = calls st" "trace (console_error l st) = trace st @ [LogError l]"
  "sent (console_error l st) = sent st" "failed (console_error l st) = failed st"
  by (simp_all add: console_error_def)

lemma outcomes_append [simp]: "outcomes (xs @ ys) = outcomes xs @ outcomes ys"
  by (induction xs) (auto split: option.splits)

lemma accounted_refl: "accounted [] st st"
  by (simp add: accounted_def)

lemma accounted_trans:
  assumes "accounted xs st st1" and "accounted ys st1 st2"
  shows "accounted (xs @ ys) st st2"
proof -
  from assms(1) obtain e1 where 1: "trace st1 = trace st @ e1"
    "map snd (outcomes e1) = map (\<lambda>e. maskEmail (msg_to e)) xs"
    "sent st1 = sent st + length (filter fst (outcomes e1))"
    "failed st1 = failed st + length (filter (\<lambda>x. \<not> fst x) (outcomes e1))"
    unfolding accounted_def by blast
  from assms(2) obtain e2 where 2: "trace st2 = trace st1 @ e2"
    "map snd (outcomes e2) = map (\<lambda>e. maskEmail (msg_to e)) ys"
    "sent st2 = sent st1 + length (filter fst (outcomes e2))"
    "failed st2 = failed st1 + length (filter (\<lambda>x. \<not> fst x) (outcomes e2))"
    unfolding accounted_def by blast
  show ?thesis
    unfolding accounted_def
    by (rule exI [of _ "e1 @ e2"]) (simp add: 1 2)
qed

lemma accounted_silent_trans:
  "accounted [] st st1 \<Longrightarrow> accounted ys st1 st2 \<Longrightarrow> accounted ys st st2"
  using accounted_trans [of "[]" st st1 ys st2] by simp

lemma accounted_trans_silent:
  "accounted xs st st1 \<Longrightarrow> accounted [] st1 st2 \<Longrightarrow> accounted xs st st2"
  using accounted_trans [of xs st st1 "[]" st2] by simp

lemma accounted_emit: "outcome e = None \<Longrightarrow> accounted [] st (emit e st)"
  by (simp add: accounted_def)

lemma accounted_sleep: "accounted [] st (sleep ms st)"
  by (simp add: accounted_def)

lemma accounted_log_silent: "outcome (Log l) = None \<Longrightarrow> accounted [] st (console_log l st)"
  by (simp add: accounted_def)

lemma accounted_fetchJson: "accounted [] st (snd (fetchJson w req st))"
  by (simp add: fetchJson_def accounted_def Let_def split: promise.splits)

lemma accounted_sendBatch_loop:
  "accounted [] st (snd (sendBatch_loop w key emails maxRetries attempt st))"
proof (induction w key emails maxRetries attempt st rule: sendBatch_loop.induct)
  case (1 w key emails maxRetries attempt st)
  show ?case
  proof (cases "attempt \<le> maxRetries")
    case False
    then show ?thesis
      by (subst sendBatch_loop.simps) (simp add: accounted_refl)
  next
    case True
    obtain r st1 where f: "fetchJson w (PostBatch key emails) st = (r, st1)"
      by (cases "fetchJson w (PostBatch key emails) st")
    have a1: "accounted [] st st1"
      using accounted_fetchJson [of st w "PostBatch key emails"] f by simp
    show ?thesis
    proof (cases r)
      case (Inl e)
      with True f a1 show ?thesis
        by (subst sendBatch_loop.simps) simp
    next
      case (Inr resp)
      show ?thesis
      proof (cases "resp_status resp = 429 \<and> attempt < maxRetries")
        case retry: True
        let ?st2 = "sleep (attempt * 3000) (console_log (RateLimited (attempt * 3000)) st1)"
        have "accounted [] st1 ?st2"
          by (simp add: accounted_def)
        moreover have "accounted [] ?st2 (snd (sendBatch_loop w key emails maxRetries (attempt + 1) ?st2))"
          using "1.IH" [OF True f [symmetric] _ _ _ refl] Inr retry by simp
        ultimately have "accounted [] st1 (snd (sendBatch_loop w key emails maxRetries (attempt + 1) ?st2))"
          by (rule accounted_silent_trans)
        with a1 have "accounted [] st (snd (sendBatch_loop w key emails maxRetries (attempt + 1) ?st2))"
          by (rule accounted_silent_trans)
        with True f Inr retry show ?thesis
          by (subst sendBatch_loop.simps) (simp add: Let_def)
      next
        case False
        with True f Inr a1 show ?thesis
          by (subst sendBatch_loop.simps) auto
      qed
    qed
  qed
qed


lemma accounted_sendSingle_loop:
  "accounted [] st (snd (sendSingle_loop w key email maxRetries attempt st))"
proof (induction w key email maxRetries attempt st rule: sendSingle_loop.induct)
  case (1 w key email maxRetries attempt st)
  show ?case
  proof (cases "attempt \<le> maxRetries")
    case False
    then show ?thesis
      by (subst sendSingle_loop.simps) (simp add: accounted_refl)
  next
    case True
    obtain r st1 where f: "fetchJson w (PostSingle key email) st = (r, st1)"
      by (cases "fetchJson w (PostSingle key email) st")
    have a1: "accounted [] st st1"
      using accounted_fetchJson [of st w "PostSingle key email"] f by simp
    show ?thesis
    proof (cases r)
      case (Inl e)
      with True f a1 show ?thesis
        by (subst sendSingle_loop.simps) simp
    next
      case (Inr resp)
      show ?thesis
      proof (cases "resp_status resp = 429 \<and> attempt < maxRetries")
        case retry: True
        let ?st2 = "sleep (attempt * 2000) st1"
        have "accounted [] st1 ?st2"
          by (rule accounted_sleep)
        moreover have "accounted [] ?st2 (snd (sendSingle_loop w key email maxRetries (attempt + 1) ?st2))"
          using "1.IH" [OF True f [symmetric] _ _ _ refl] Inr retry by simp
        ultimately have "accounted [] st1 (snd (sendSingle_loop w key email maxRetries (attempt + 1) ?st2))"
          by (rule accounted_silent_trans)
        with a1 have "accounted [] st (snd (sendSingle_loop w key email maxRetries (attempt + 1) ?st2))"
          by (rule accounted_silent_trans)
        with True f Inr retry show ?thesis
          by (subst sendSingle_loop.simps) (simp add: Let_def)
      next
        case False
        with True f Inr a1 show ?thesis
          by (subst sendSingle_loop.simps) auto
      qed
    qed
  qed
qed

lemma log_sent_fields [simp]:
  "calls (log_sent es st) = calls st"
  "trace (log_sent es st) = trace st @ map (\<lambda>e. Log (SentTo (maskEmail (msg_to e)))) es"
  "sent (log_sent es st) = sent st"
  "failed (log_sent es st) = failed st"
  by (induction es arbitrary: st) simp_all

lemma log_failed_fields [simp]:
  "calls (log_failed es st) = calls st"
  "trace (log_failed es st) = trace st @ map (\<lambda>e. LogError (FailedFor (maskEmail (msg_to e)))) es"
  "sent (log_failed es st) = sent st"
  "failed (log_failed es st) = failed st"
  by (induction es arbitrary: st) simp_all

lemma outcomes_sent_lines:
  "outcomes (map (\<lambda>e. Log (SentTo (maskEmail (msg_to e)))) es) = map (\<lambda>e. (True, maskEmail (msg_to e))) es"
  by (induction es) simp_all

lemma outcomes_failed_lines:
  "outcomes (map (\<lambda>e. LogError (FailedFor (maskEmail (msg_to e)))) es) = map (\<lambda>e. (False, maskEmail (msg_to e))) es"
  by (induction es) simp_all

lemma accounted_batch_sent:
  "accounted es st (log_sent es (st\<lparr>sent := sent st + length es\<rparr>))"
  unfolding accounted_def
  by (rule exI [of _ "map (\<lambda>e. Log (SentTo (maskEmail (msg_to e)))) es"])
     (simp add: outcomes_sent_lines comp_def)

lemma accounted_batch_failed:
  "accounted es st
     (log_failed es (console_error (BatchFailed s d) (st\<lparr>failed := failed st + length es\<rparr>)))"
  unfolding accounted_def
  by (rule exI [of _ "LogError (BatchFailed s d) # map (\<lambda>e. LogError (FailedFor (maskEmail (msg_to e)))) es"])
     (simp add: outcomes_failed_lines comp_def)

lemma accounted_fallback_loop:
  "fallback_loop w key es st = (Inr u, st') \<Longrightarrow> accounted es st st'"
proof (induction es arbitrary: st)
  case Nil
  then show ?case by (simp add: accounted_refl)
next
  case (Cons e es)
  obtain r st1 where s: "sendSingle w key e 3 st = (r, st1)"
    by (cases "sendSingle w key e 3 st")
  have a1: "accounted [] st st1"
    using accounted_sendSingle_loop [of st w key e 3 1] s by (simp add: sendSingle_def)
  from Cons.prems s obtain res where r: "r = Inr res"
    by (cases r) auto
  let ?st2 = "if success res then
                console_log (SentTo (maskEmail (msg_to e))) (st1\<lparr>sent := sent st1 + 1\<rparr>)
              else
                console_error (FailedForStatus (maskEmail (msg_to e)) (status res))
                  (st1\<lparr>failed := failed st1 + 1\<rparr>)"
  have a2: "accounted [e] st1 (sleep 600 ?st2)"
    by (simp add: accounted_def)
  have "fallback_loop w key es (sleep 600 ?st2) = (Inr u, st')"
    using Cons.prems s r by (simp add: Let_def)
  then have a3: "accounted es (sleep 600 ?st2) st'"
    by (rule Cons.IH)
  from accounted_trans [OF a2 a3] have "accounted (e # es) st1 st'" by simp
  with a1 show ?case by (rule accounted_silent_trans)
qed

lemma accounted_process_batch:
  assumes "process_batch w key batch st = (Inr u, st')"
  shows "accounted batch st st'"
proof -
  obtain r st1 where s: "sendBatch w key batch 3 st = (r, st1)"
    by (cases "sendBatch w key batch 3 st")
  have a1: "accounted [] st st1"
    using accounted_sendBatch_loop [of st w key batch 3 1] s by (simp add: sendBatch_def)
  from assms s obtain res where r: "r = Inr res"
    by (cases r) (auto simp: process_batch_def)
  show ?thesis
  proof (cases "success res")
    case True
    with assms s r have "st' = log_sent batch (st1\<lparr>sent := sent st1 + length batch\<rparr>)"
      by (simp add: process_batch_def)
    with accounted_silent_trans [OF a1 accounted_batch_sent [of batch st1]] show ?thesis
      by simp
  next
    case False
    let ?st2 = "console_log (BatchFailedFallingBack (status res)) st1"
    from assms s r False have "fallback_loop w key batch ?st2 = (Inr u, st')"
      by (simp add: process_batch_def)
    then have "accounted batch ?st2 st'"
      by (rule accounted_fallback_loop)
    moreover have "accounted [] st1 ?st2"
      by (simp add: accounted_def)
    ultimately have "accounted batch st1 st'"
      by (rule accounted_silent_trans [rotated])
    with a1 show ?thesis
      by (rule accounted_silent_trans)
  qed
qed

lemma accounted_process_batch_nl:
  assumes "process_batch_nl w key batch st = (Inr u, st')"
  shows "accounted batch st st'"
proof -
  obtain r st1 where s: "sendBatch_nl w key batch 3 st = (r, st1)"
    by (cases "sendBatch_nl w key batch 3 st")
  have a1: "accounted [] st st1"
    using accounted_sendBatch_loop [of st w key batch 3 1] s
    by (simp add: sendBatch_nl_def sendBatch_loop_nl_eq)
  from assms s obtain res where r: "r = Inr res"
    by (cases r) (auto simp: process_batch_nl_def)
  show ?thesis
  proof (cases "success res")
    case True
    with assms s r have "st' = log_sent batch (st1\<lparr>sent := sent st1 + length batch\<rparr>)"
      by (simp add: process_batch_nl_def)
    with accounted_silent_trans [OF a1 accounted_batch_sent [of batch st1]] show ?thesis
      by simp
  next
    case False
    with assms s r have "st' = log_failed batch
       (console_error (BatchFailed (status res) (data res)) (st1\<lparr>failed := failed st1 + length batch\<rparr>))"
      by (simp add: process_batch_nl_def)
    with accounted_silent_trans [OF a1 accounted_batch_failed [of batch st1]] show ?thesis
      by simp
  qed
qed

lemma accounted_run_batches:
  assumes body: "\<And>b st st' u. body b st = (Inr u, st') \<Longrightarrow> accounted b st st'"
  shows "run_batches body k n bs st = (Inr u, st') \<Longrightarrow> accounted (concat bs) st st'"
proof (induction bs arbitrary: k st)
  case Nil
  then show ?case by (simp add: accounted_refl)
next
  case (Cons b bs)
  let ?st1 = "console_log (SendingBatch k n (length b)) st"
  obtain r st2 where b: "body b ?st1 = (r, st2)"
    by (cases "body b ?st1")
  from Cons.prems b obtain v where r: "r = Inr v"
    by (cases r) auto
  have a1: "accounted [] st ?st1"
    by (simp add: accounted_def)
  have a2: "accounted b ?st1 st2"
    using body b r by blast
  let ?st3 = "if bs = [] then st2 else sleep 1000 st2"
  have a3: "accounted [] st2 ?st3"
    by (simp add: accounted_refl accounted_sleep)
  from Cons.prems b r have "run_batches body (k + 1) n bs ?st3 = (Inr u, st')"
    by simp
  then have a4: "accounted (concat bs) ?st3 st'"
    by (rule Cons.IH)
  have "accounted b st ?st3"
    by (rule accounted_silent_trans [OF a1 accounted_trans_silent [OF a2 a3]])
  from accounted_trans [OF this a4] show ?case by simp
qed

lemma accounted_deliver:
  assumes "deliver w key allEmails st = (Inr u, st')"
  shows "accounted allEmails st st'"
proof -
  from assms have "run_batches (process_batch w key) (0 div BATCH_SIZE + 1)
      (nat \<lceil>real (length allEmails) / real BATCH_SIZE\<rceil>) (batches_from allEmails 0) st = (Inr u, st')"
    unfolding deliver_def batch_loop_run_batches .
  then have "accounted (concat (batches_from allEmails 0)) st st'"
    by (rule accounted_run_batches [rotated]) (rule accounted_process_batch)
  then show ?thesis
    by (simp add: concat_batches_from)
qed

lemma accounted_deliver_nl:
  assumes "deliver_nl w key allEmails st = (Inr u, st')"
  shows "accounted allEmails st st'"
proof -
  from assms have "run_batches (process_batch_nl w key) (0 div BATCH_SIZE + 1)
      (nat \<lceil>real (length allEmails) / real BATCH_SIZE\<rceil>) (batches_from allEmails 0) st = (Inr u, st')"
    unfolding deliver_nl_def batch_loop_run_batches .
  then have "accounted (concat (batches_from allEmails 0)) st st'"
    by (rule accounted_run_batches [rotated]) (rule accounted_process_batch_nl)
  then show ?thesis
    by (simp add: concat_batches_from)
qed

lemma accounted_sum:
  assumes "accounted msgs st st'"
  shows "sent st' + failed st' = sent st + failed st + length msgs"
proof -
  from assms obtain evs where e: "map snd (outcomes evs) = map (\<lambda>e. maskEmail (msg_to e)) msgs"
    "sent st' = sent st + length (filter fst (outcomes evs))"
    "failed st' = failed st + length (filter (\<lambda>x. \<not> fst x) (outcomes evs))"
    unfolding accounted_def by blast
  have "length (outcomes evs) = length msgs"
    using e(1) by (metis length_map)
  moreover have "length (filter fst (outcomes evs)) + length (filter (\<lambda>x. \<not> fst x) (outcomes evs))
      = length (outcomes evs)"
    by (rule sum_length_filter_compl)
  ultimately show ?thesis
    using e(2,3) by simp
qed


section \<open>Runs without a rejected request complete\<close>

lemma fetchJson_total:
  assumes "\<forall>k. provider w k \<noteq> Rejected"
  shows "\<exists>resp st'. fetchJson w req st = (Inr resp, st')"
proof -
  from assms obtain resp where "provider w (calls st) = Resolved resp"
    by (cases "provider w (calls st)") auto
  then show ?thesis
    by (simp add: fetchJson_def)
qed

lemma sendBatch_loop_total:
  "\<forall>k. provider w k \<noteq> Rejected \<Longrightarrow>
   \<exists>r st'. sendBatch_loop w key emails maxRetries attempt st = (Inr r, st')"
proof (induction w key emails maxRetries attempt st rule: sendBatch_loop.induct)
  case (1 w key emails maxRetries attempt st)
  show ?case
  proof (cases "attempt \<le> maxRetries")
    case False
    then show ?thesis
      by (subst sendBatch_loop.simps) simp
  next
    case True
    from fetchJson_total [OF "1.prems"] obtain resp st1
      where f: "fetchJson w (PostBatch key emails) st = (Inr resp, st1)"
      by blast
    show ?thesis
    proof (cases "resp_status resp = 429 \<and> attempt < maxRetries")
      case retry: True
      let ?st2 = "sleep (attempt * 3000) (console_log (RateLimited (attempt * 3000)) st1)"
      have "\<exists>r st'. sendBatch_loop w key emails maxRetries (attempt + 1) ?st2 = (Inr r, st')"
        using "1.IH" [OF True f [symmetric] _ _ _ refl] retry "1.prems" by simp
      with True f retry show ?thesis
        by (subst sendBatch_loop.simps) (simp add: Let_def)
    next
      case False
      with True f show ?thesis
        by (subst sendBatch_loop.simps) auto
    qed
  qed
qed

lemma sendSingle_loop_total:
  "\<forall>k. provider w k \<noteq> Rejected \<Longrightarrow>
   \<exists>r st'. sendSingle_loop w key email maxRetries attempt st = (Inr r, st')"
proof (induction w key email maxRetries attempt st rule: sendSingle_loop.induct)
  case (1 w key email maxRetries attempt st)
  show ?case
  proof (cases "attempt \<le> maxRetries")
    case False
    then show ?thesis
      by (subst sendSingle_loop.simps) simp
  next
    case True
    from fetchJson_total [OF "1.prems"] obtain resp st1
      where f: "fetchJson w (PostSingle key email) st = (Inr resp, st1)"
      by blast
    show ?thesis
    proof (cases "resp_status resp = 429 \<and> attempt < maxRetries")
      case retry: True
      let ?st2 = "sleep (attempt * 2000) st1"
      have "\<exists>r st'. sendSingle_loop w key email maxRetries (attempt + 1) ?st2 = (Inr r, st')"
        using "1.IH" [OF True f [symmetric] _ _ _ refl] retry "1.prems" by simp
      with True f retry show ?thesis
        by (subst sendSingle_loop.simps) (simp add: Let_def)
    next
      case False
      with True f show ?thesis
        by (subst sendSingle_loop.simps) auto
    qed
  qed
qed

lemma fallback_loop_total:
  assumes "\<forall>k. provider w k \<noteq> Rejected"
  shows "\<exists>st'. fallback_loop w key es st = (Inr (), st')"
proof (induction es arbitrary: st)
  case Nil
  show ?case by simp
next
  case (Cons e es)
  from sendSingle_loop_total [OF assms] obtain r st1
    where "sendSingle w key e 3 st = (Inr r, st1)"
    unfolding sendSingle_def by blast
  then show ?case
    using Cons.IH by (simp add: Let_def)
qed

lemma process_batch_total:
  assumes "\<forall>k. provider w k \<noteq> Rejected"
  shows "\<exists>st'. process_batch w key batch st = (Inr (), st')"
proof -
  from sendBatch_loop_total [OF assms] obtain r st1
    where "sendBatch w key batch 3 st = (Inr r, st1)"
    unfolding sendBatch_def by blast
  then show ?thesis
    using fallback_loop_total [OF assms] by (simp add: process_batch_def)
qed

lemma process_batch_nl_total:
  assumes "\<forall>k. provider w k \<noteq> Rejected"
  shows "\<exists>st'. process_batch_nl w key batch st = (Inr (), st')"
proof -
  from sendBatch_loop_total [OF assms] obtain r st1
    where "sendBatch_nl w key batch 3 st = (Inr r, st1)"
    unfolding sendBatch_nl_def sendBatch_loop_nl_eq by blast
  then show ?thesis
    by (simp add: process_batch_nl_def)
qed

lemma run_batches_total:
  assumes "\<And>b st. \<exists>st'. body b st = (Inr (), st')"
  shows "\<exists>st'. run_batches body k n bs st = (Inr (), st')"
proof (induction bs arbitrary: k st)
  case Nil
  show ?case by simp
next
  case (Cons b bs)
  from assms obtain st2 where "body b (console_log (SendingBatch k n (length b)) st) = (Inr (), st2)"
    by blast
  then show ?case
    using Cons.IH by simp
qed

lemma deliver_total:
  assumes "\<forall>k. provider w k \<noteq> Rejected"
  shows "\<exists>st'. deliver w key allEmails st = (Inr (), st')"
  unfolding deliver_def batch_loop_run_batches
  by (rule run_batches_total) (rule process_batch_total [OF assms])

lemma deliver_nl_total:
  assumes "\<forall>k. provider w k \<noteq> Rejected"
  shows "\<exists>st'. deliver_nl w key allEmails st = (Inr (), st')"
  unfolding deliver_nl_def batch_loop_run_batches
  by (rule run_batches_total) (rule process_batch_nl_total [OF assms])

section \<open>The claims on the delivery loop\<close>

lemma batches_sizes_50: "list_all (\<lambda>b. length b \<le> 50) (batches xs)"
  using batches_from_sizes [of xs 0]
  by (simp add: batches_def BATCH_SIZE_def list_all_iff)

text \<open>
  Claim C3: the delivery loop (of either variant) handles the batches \<open>batches allEmails\<close>
  one after the other; there are \<open>ceil(n / 50)\<close> of them for \<open>n\<close> messages, none is longer
  than 50, and their concatenation in processing order is the message list.
\<close>

theorem batches_partition:
  "length (batches allEmails) = nat \<lceil>real (length allEmails) / 50\<rceil> \<and>
   list_all (\<lambda>b. length b \<le> 50) (batches allEmails) \<and>
   concat (batches allEmails) = allEmails \<and>
   deliver w key allEmails st =
     run_batches (process_batch w key) 1 (nat \<lceil>real (length allEmails) / 50\<rceil>)
       (batches allEmails) st \<and>
   deliver_nl w key allEmails st =
     run_batches (process_batch_nl w key) 1 (nat \<lceil>real (length allEmails) / 50\<rceil>)
       (batches allEmails) st"
proof -
  have "length (batches allEmails) = nat \<lceil>real (length allEmails) / 50\<rceil>"
    by (simp add: batches_def length_batches_from ceil_div50)
  moreover have "concat (batches allEmails) = allEmails"
    by (simp add: batches_def concat_batches_from)
  moreover have "deliver w key allEmails st =
     run_batches (process_batch w key) 1 (nat \<lceil>real (length allEmails) / 50\<rceil>)
       (batches allEmails) st"
    by (simp add: deliver_def batch_loop_run_batches batches_def BATCH_SIZE_def)
  moreover have "deliver_nl w key allEmails st =
     run_batches (process_batch_nl w key) 1 (nat \<lceil>real (length allEmails) / 50\<rceil>)
       (batches allEmails) st"
    by (simp add: deliver_nl_def batch_loop_run_batches batches_def BATCH_SIZE_def)
  ultimately show ?thesis
    using batches_sizes_50 [of allEmails] by simp
qed

lemma ceil_1_25: "\<lceil>(1::real) / 25\<rceil> = 1"
  by (simp add: ceiling_eq_iff)

lemma deliver_world_fallback:
  "deliver world_fallback (js ''re_key'') [msg_a, msg_b] st0 = (Inr (), st_fallback)"
  by (simp add: ceil_1_25 deliver_def batch_loop.simps BATCH_SIZE_def slice_def process_batch_def sendBatch_def
     sendBatch_loop.simps sendSingle_def sendSingle_loop.simps fetchJson_def world_fallback_def st0_def
     Let_def emit_def sleep_def console_log_def console_error_def st_fallback_def
     msg_a_def msg_b_def maskEmail_def js_def cu_def jsrepeat_def)

text \<open>
  Claim C9: when the delivery loop ends, every message has been reported exactly once, as
  sent or as failed, in the order of the list, \<open>sent\<close> has grown by the number reported
  sent and \<open>failed\<close> by the number reported failed; so \<open>sent + failed\<close> has grown by the
  number of messages (it starts at 0). This holds in both variants, whether a batch
  succeeded or not. The loop does end unless a request is rejected, which is an exception
  that ends the run.
\<close>

theorem delivery_counts:
  "(deliver w key allEmails st = (Inr (), st') \<longrightarrow>
      accounted allEmails st st' \<and>
      sent st' + failed st' = sent st + failed st + length allEmails) \<and>
   (deliver_nl w key allEmails st = (Inr (), st'') \<longrightarrow>
      accounted allEmails st st'' \<and>
      sent st'' + failed st'' = sent st + failed st + length allEmails) \<and>
   ((\<forall>k. provider w k \<noteq> Rejected) \<longrightarrow>
      (\<exists>s. deliver w key allEmails st = (Inr (), s)) \<and>
      (\<exists>s. deliver_nl w key allEmails st = (Inr (), s)))"
  using accounted_deliver [of w key allEmails st "()" st']
    accounted_deliver_nl [of w key allEmails st "()" st'']
    accounted_sum [of allEmails st st'] accounted_sum [of allEmails st st'']
    deliver_total [of w key allEmails st] deliver_nl_total [of w key allEmails st]
  by blast

text \<open>Claim C9, witness: two messages whose batch fails; the first individual send
  succeeds, the second fails. And a provider that rejects no request.\<close>

theorem delivery_counts_witness:
  "deliver world_fallback (js ''re_key'') [msg_a, msg_b] st0 = (Inr (), st_fallback) \<and>
   accounted [msg_a, msg_b] st0 st_fallback \<and>
   sent st_fallback + failed st_fallback = sent st0 + failed st0 + length [msg_a, msg_b] \<and>
   sent st_fallback = 1 \<and> failed st_fallback = 1 \<and>
   (\<exists>s. deliver world_retry (js ''re_key'') [msg_a, msg_b] st0 = (Inr (), s)) \<and>
   (\<exists>s. deliver_nl world_retry (js ''re_key'') [msg_a, msg_b] st0 = (Inr (), s))"
proof -
  have total: "\<forall>k. provider world_retry k \<noteq> Rejected"
    by (simp add: world_retry_def)
  from delivery_counts [of world_fallback "js ''re_key''" "[msg_a, msg_b]" st0 st_fallback]
    deliver_world_fallback
  have "accounted [msg_a, msg_b] st0 st_fallback \<and>
      sent st_fallback + failed st_fallback = sent st0 + failed st0 + length [msg_a, msg_b]"
    by blast
  moreover from delivery_counts [of world_retry "js ''re_key''" "[msg_a, msg_b]" st0] total
  have "(\<exists>s. deliver world_retry (js ''re_key'') [msg_a, msg_b] st0 = (Inr (), s)) \<and>
     (\<exists>s. deliver_nl world_retry (js ''re_key'') [msg_a, msg_b] st0 = (Inr (), s))"
    by blast
  ultimately show ?thesis
    using deliver_world_fallback by (simp add: st_fallback_def)
qed

section \<open>The fallback\<close>






section \<open>History does not matter\<close>

lemma with_history_fields [simp]:
  "calls (with_history t s f st) = calls st"
  "trace (with_history t s f st) = t @ trace st"
  "sent (with_history t s f st) = s + sent st"
  "failed (with_history t s f st) = f + failed st"
  by (simp_all add: with_history_def)






lemma with_history_failed:
  "(with_history t s f st)\<lparr>failed := f + failed st + n\<rparr> = with_history t s f (st\<lparr>failed := failed st + n\<rparr>)"
  by (simp add: with_history_def)

















section \<open>Validation\<close>

lemma conc_Cons_iff:
  "c # w \<in> conc A B \<longleftrightarrow>
   (\<exists>u v. w = u @ v \<and> c # u \<in> A \<and> v \<in> B) \<or> ([] \<in> A \<and> c # w \<in> B)"
proof
  assume "c # w \<in> conc A B"
  then obtain u v where uv: "c # w = u @ v" "u \<in> A" "v \<in> B"
    unfolding conc_def by blast
  show "(\<exists>u v. w = u @ v \<and> c # u \<in> A \<and> v \<in> B) \<or> ([] \<in> A \<and> c # w \<in> B)"
  proof (cases u)
    case Nil
    with uv show ?thesis by simp
  next
    case (Cons a u')
    with uv show ?thesis by auto
  qed
next
  assume "(\<exists>u v. w = u @ v \<and> c # u \<in> A \<and> v \<in> B) \<or> ([] \<in> A \<and> c # w \<in> B)"
  then show "c # w \<in> conc A B"
  proof
    assume "\<exists>u v. w = u @ v \<and> c # u \<in> A \<and> v \<in> B"
    then obtain u v where "w = u @ v" "c # u \<in> A" "v \<in> B" by blast
    then have "c # w = (c # u) @ v" by simp
    with \<open>c # u \<in> A\<close> \<open>v \<in> B\<close> show ?thesis unfolding conc_def by blast
  next
    assume "[] \<in> A \<and> c # w \<in> B"
    then have "c # w = [] @ (c # w)" "[] \<in> A" "c # w \<in> B" by simp_all
    then show ?thesis unfolding conc_def by blast
  qed
qed

lemma Nil_in_conc: "[] \<in> conc A B \<longleftrightarrow> [] \<in> A \<and> [] \<in> B"
  by (auto simp: conc_def)

lemma star_Cons_iff:
  "c # w \<in> star A \<longleftrightarrow> (\<exists>u v. w = u @ v \<and> c # u \<in> A \<and> v \<in> star A)"
proof
  assume "c # w \<in> star A"
  then show "\<exists>u v. w = u @ v \<and> c # u \<in> A \<and> v \<in> star A"
  proof (induction "c # w" arbitrary: rule: star.induct)
    case (star_step u v)
    show ?case
    proof (cases u)
      case Nil
      with star_step show ?thesis by simp
    next
      case (Cons a u')
      with star_step show ?thesis by auto
    qed
  qed
next
  assume "\<exists>u v. w = u @ v \<and> c # u \<in> A \<and> v \<in> star A"
  then obtain u v where "w = u @ v" "c # u \<in> A" "v \<in> star A" by blast
  then show "c # w \<in> star A"
    using star_step [of "c # u" A v] by simp
qed

lemma nullable_lang: "nullable r \<longleftrightarrow> [] \<in> lang r"
  by (induction r) (auto simp: Nil_in_conc intro: star_nil)

lemma lang_deriv: "w \<in> lang (deriv c r) \<longleftrightarrow> c # w \<in> lang r"
proof (induction r arbitrary: w)
  case (Seq r s)
  then show ?case
    by (auto simp: conc_Cons_iff nullable_lang) (auto simp: conc_def)
next
  case (Star r)
  then show ?case
    by (auto simp: star_Cons_iff conc_def)
next
  case (Plus r)
  show ?case
  proof
    assume "w \<in> lang (deriv c (Plus r))"
    then obtain u v where "w = u @ v" "c # u \<in> lang r" "v \<in> star (lang r)"
      using Plus by (auto simp: conc_def)
    then show "c # w \<in> lang (Plus r)"
      by (auto simp: conc_Cons_iff)
  next
    assume "c # w \<in> lang (Plus r)"
    then consider u v where "w = u @ v" "c # u \<in> lang r" "v \<in> star (lang r)"
      | "[] \<in> lang r" "c # w \<in> star (lang r)"
      by (auto simp: conc_Cons_iff)
    then show "w \<in> lang (deriv c (Plus r))"
    proof cases
      case 1
      then show ?thesis using Plus by (auto simp: conc_def)
    next
      case 2
      then obtain u v where "w = u @ v" "c # u \<in> lang r" "v \<in> star (lang r)"
        by (auto simp: star_Cons_iff)
      then show ?thesis using Plus by (auto simp: conc_def)
    qed
  qed
qed auto

lemma regex_test_lang: "regex_test r s \<longleftrightarrow> s \<in> lang r"
  unfolding regex_test_def
  by (induction s arbitrary: r) (simp_all add: nullable_lang lang_deriv)


lemma lang_notSpaceOrAt: "lang notSpaceOrAt = {[c] | c. plain c}"
  by (auto simp: notSpaceOrAt_def plain_def)

lemma star_plain: "w \<in> star {[c] | c. plain c} \<longleftrightarrow> list_all plain w"
proof
  assume "w \<in> star {[c] | c. plain c}"
  then show "list_all plain w"
    by (induction rule: star.induct) auto
next
  assume "list_all plain w"
  then show "w \<in> star {[c] | c. plain c}"
  proof (induction w)
    case Nil
    show ?case by (rule star_nil)
  next
    case (Cons c w)
    then have "[c] \<in> {[c] | c. plain c}" "w \<in> star {[c] | c. plain c}" by auto
    then have "[c] @ w \<in> star {[c] | c. plain c}" by (rule star_step)
    then show ?case by simp
  qed
qed

lemma lang_plus_plain: "w \<in> lang (Plus notSpaceOrAt) \<longleftrightarrow> w \<noteq> [] \<and> list_all plain w"
proof
  assume "w \<in> lang (Plus notSpaceOrAt)"
  then obtain c v where "w = [c] @ v" "plain c" "v \<in> star {[c] | c. plain c}"
    by (auto simp: lang_notSpaceOrAt conc_def)
  then show "w \<noteq> [] \<and> list_all plain w"
    by (simp add: star_plain)
next
  assume "w \<noteq> [] \<and> list_all plain w"
  then obtain c v where w: "w = c # v" "plain c" "list_all plain v"
    by (cases w) auto
  then have "[c] \<in> {[c] | c. plain c}" "v \<in> star {[c] | c. plain c}"
    by (auto simp: star_plain)
  then have "[c] @ v \<in> conc {[c] | c. plain c} (star {[c] | c. plain c})"
    unfolding conc_def by blast
  then show "w \<in> lang (Plus notSpaceOrAt)"
    using w by (simp add: lang_notSpaceOrAt)
qed

lemma isValidEmail_iff_parts:
  "isValidEmail s \<longleftrightarrow>
     (\<exists>lcl d1 d2. s = lcl @ js ''@'' @ d1 @ js ''.'' @ d2 \<and>
        lcl \<noteq> [] \<and> list_all plain lcl \<and> d1 \<noteq> [] \<and> list_all plain d1 \<and>
        d2 \<noteq> [] \<and> list_all plain d2)"
proof -
  have "isValidEmail s \<longleftrightarrow>
      s \<in> conc (lang (Plus notSpaceOrAt))
            (conc {[cu CHR ''@'']}
               (conc (lang (Plus notSpaceOrAt))
                  (conc {[cu CHR ''.'']} (lang (Plus notSpaceOrAt)))))"
    by (simp add: isValidEmail_def regex_test_lang emailRegex_def del: lang.simps(8))
  also have "\<dots> \<longleftrightarrow>
     (\<exists>lcl d1 d2. s = lcl @ js ''@'' @ d1 @ js ''.'' @ d2 \<and>
        lcl \<in> lang (Plus notSpaceOrAt) \<and> d1 \<in> lang (Plus notSpaceOrAt) \<and>
        d2 \<in> lang (Plus notSpaceOrAt))"
    unfolding conc_def js_def by (simp del: lang.simps(8)) blast
  finally show ?thesis
    by (simp add: lang_plus_plain del: lang.simps(8))
qed

lemma plain_dot: "plain (cu CHR ''.'')"
  by (simp add: plain_def isWhiteSpace_def cu_def)

lemma isValidEmail_iff:
  "isValidEmail s \<longleftrightarrow>
     (\<exists>lcl dmn. s = lcl @ js ''@'' @ dmn \<and> lcl \<noteq> [] \<and> list_all plain lcl \<and>
        list_all plain dmn \<and>
        (\<exists>i. 0 < i \<and> i + 1 < length dmn \<and> dmn ! i = cu CHR ''.''))"
  (is "_ \<longleftrightarrow> ?R")
proof
  assume "isValidEmail s"
  then obtain lcl d1 d2 where p: "s = lcl @ js ''@'' @ d1 @ js ''.'' @ d2"
    "lcl \<noteq> []" "list_all plain lcl" "d1 \<noteq> []" "list_all plain d1" "d2 \<noteq> []" "list_all plain d2"
    unfolding isValidEmail_iff_parts by blast
  let ?dmn = "d1 @ js ''.'' @ d2"
  have "list_all plain ?dmn"
    using p plain_dot by (simp add: js_def)
  moreover have "0 < length d1 \<and> length d1 + 1 < length ?dmn \<and> ?dmn ! length d1 = cu CHR ''.''"
    using p by (simp add: js_def)
  ultimately show ?R
    using p(1,2,3) by blast
next
  assume ?R
  then obtain lcl dmn i where p: "s = lcl @ js ''@'' @ dmn" "lcl \<noteq> []" "list_all plain lcl"
    "list_all plain dmn" "0 < i" "i + 1 < length dmn" "dmn ! i = cu CHR ''.''"
    by blast
  have split: "dmn = take i dmn @ js ''.'' @ drop (Suc i) dmn"
    using p(6,7) id_take_nth_drop [of i dmn] by (simp add: js_def)
  have "list_all plain (take i dmn)" "list_all plain (drop (Suc i) dmn)"
    using p(4) by (auto simp: list_all_iff dest: in_set_takeD in_set_dropD)
  moreover have "take i dmn \<noteq> []" "drop (Suc i) dmn \<noteq> []"
    using p(5,6) by auto
  moreover have "s = lcl @ js ''@'' @ take i dmn @ js ''.'' @ drop (Suc i) dmn"
    using p(1) split by simp
  ultimately show "isValidEmail s"
    unfolding isValidEmail_iff_parts using p(2,3) by blast
qed

text \<open>
  Claim C7, as stated, fails: \<open>a@b.\<close> has the local part \<open>a\<close>, an \<open>@\<close>, and the domain
  \<open>b.\<close>, which has no white space, no \<open>@\<close> and contains a dot; the regular expression
  rejects it, since it asks for at least one character after a dot of the domain (and at
  least one before it).
\<close>

theorem isValidEmail_counterexample:
  "claimed_valid (js ''a@b.'') \<and> \<not> isValidEmail (js ''a@b.'')"
proof -
  have "js ''a@b.'' = js ''a'' @ js ''@'' @ js ''b.''"
    by (simp add: js_def)
  moreover have "js ''a'' \<noteq> [] \<and> list_all plain (js ''a'') \<and> list_all plain (js ''b.'') \<and>
      cu CHR ''.'' \<in> set (js ''b.'')"
    by (simp add: js_def cu_def plain_def isWhiteSpace_def)
  ultimately have "claimed_valid (js ''a@b.'')"
    unfolding claimed_valid_def by blast
  moreover have "\<not> isValidEmail (js ''a@b.'')"
    by (simp add: isValidEmail_def regex_test_def emailRegex_def notSpaceOrAt_def js_def cu_def
        isWhiteSpace_def)
  ultimately show ?thesis by simp
qed

text \<open>
  Claim C7, amended: \<open>isValidEmail\<close> accepts exactly the strings made of a non-empty
  local part, an \<open>@\<close> and a domain, both without white space and \<open>@\<close>, where the domain
  has a dot that is neither its first nor its last character. \<open>a@b.co\<close> is accepted;
  \<open>no-at-sign\<close>, \<open>@nodomain\<close> and \<open>user@nodot\<close> are rejected.
\<close>

theorem isValidEmail_spec:
  "(isValidEmail s \<longleftrightarrow>
     (\<exists>lcl dmn. s = lcl @ js ''@'' @ dmn \<and> lcl \<noteq> [] \<and> list_all plain lcl \<and>
        list_all plain dmn \<and>
        (\<exists>i. 0 < i \<and> i + 1 < length dmn \<and> dmn ! i = cu CHR ''.''))) \<and>
   isValidEmail (js ''a@b.co'') \<and>
   \<not> isValidEmail (js ''no-at-sign'') \<and>
   \<not> isValidEmail (js ''@nodomain'') \<and>
   \<not> isValidEmail (js ''user@nodot'')"
proof -
  have "isValidEmail (js ''a@b.co'')"
    by (simp add: isValidEmail_def regex_test_def emailRegex_def notSpaceOrAt_def js_def cu_def
        isWhiteSpace_def)
  moreover have "\<not> isValidEmail (js ''no-at-sign'')"
    by (simp add: isValidEmail_def regex_test_def emailRegex_def notSpaceOrAt_def js_def cu_def
        isWhiteSpace_def)
  moreover have "\<not> isValidEmail (js ''@nodomain'')"
    by (simp add: isValidEmail_def regex_test_def emailRegex_def notSpaceOrAt_def js_def cu_def
        isWhiteSpace_def)
  moreover have "\<not> isValidEmail (js ''user@nodot'')"
    by (simp add: isValidEmail_def regex_test_def emailRegex_def notSpaceOrAt_def js_def cu_def
        isWhiteSpace_def)
  ultimately show ?thesis
    using isValidEmail_iff [of s] by blast
qed

section \<open>Replacing the marker\<close>








section \<open>The characters of the unsubscribe URL\<close>












section \<open>The claims on the payload builder\<close>

lemma encode_sub0: "encodeURIComponent (js ''a@b.co'') = Inr (js ''a%40b.co'')"
  by (simp add: js_def cu_def uriUnescaped_def isTrailSurrogate_def isLeadSurrogate_def
      pctEncode_def utf8_def pctByte_def)

lemma token_sub0: "hmacToken hmac0 e s = js ''ab01''"
  by (simp add: hmacToken_def hmac0_def hexByte_def js_def cu_def)












section \<open>The exit status\<close>

lemma main_delivery:
  assumes "directory w = Resolved (200, subs)"
    and "filter (\<lambda>s. isValidEmail (sub_email s)) subs \<noteq> []"
    and "build_all hmac cfg (stripTrailingSlash (WORKER_URL cfg))
           (filter (\<lambda>s. isValidEmail (sub_email s)) subs) = Inr allEmails"
  shows "exit_status (main hmac cfg w st) =
     (case deliver w (RESEND_API_KEY cfg) allEmails (before_delivery cfg subs st) of
        (Inl x, st5) \<Rightarrow> (1, console_error (Uncaught x) st5)
      | (Inr u, st5) \<Rightarrow>
          (if failed st5 > 0 then 1 else 0,
           console_log (Done (sent st5) (failed st5)
             (length (filter (\<lambda>s. isValidEmail (sub_email s)) subs))) st5))"
  using assms
  by (simp add: main_def fetchJson_directory_def Let_def before_delivery_def exit_status_def
      split: prod.splits sum.splits)

lemma main_no_valid:
  assumes "directory w = Resolved (200, subs)"
    and "filter (\<lambda>s. isValidEmail (sub_email s)) subs = []"
  shows "fst (exit_status (main hmac cfg w st)) = 0"
  using assms
  by (simp add: main_def fetchJson_directory_def Let_def exit_status_def)

lemma program_missing:
  assumes "falsy (env_RESEND_API_KEY env) \<or> falsy (env_WORKER_URL env) \<or>
           falsy (env_WORKER_SECRET env) \<or> falsy (env_EPISODE_DATE env)"
  shows "program hmac env files w = (0, console_log MissingEnv st0)"
  using assms by (simp add: program_def)

lemma program_main:
  assumes "\<not> (falsy (env_RESEND_API_KEY env) \<or> falsy (env_WORKER_URL env) \<or>
           falsy (env_WORKER_SECRET env) \<or> falsy (env_EPISODE_DATE env))"
    and "files (js ''episodes/'' @ text_of (env_EPISODE_DATE env) @ js ''/email.html'') = Some template"
  shows "program hmac env files w = exit_status (main hmac (make_config env template) w st0)"
  using assms by (simp add: program_def Let_def)

lemma exit_after_delivery:
  assumes r: "reaches_delivery hmac cfg w valid allEmails"
    and e: "exit_status (main hmac cfg w st) = (code, st')"
  shows "(code \<noteq> 0 \<longleftrightarrow> failed st' > 0 \<or> (\<exists>x. last (trace st') = LogError (Uncaught x)))"
    and "(\<forall>k. provider w k \<noteq> Rejected) \<Longrightarrow>
           last (trace st') = Log (Done (sent st') (failed st') (length valid)) \<and>
           (code \<noteq> 0 \<longleftrightarrow> failed st' > 0) \<and> sent st' + failed st' = length valid"
proof -
  from r obtain subs where s: "directory w = Resolved (200, subs)"
    "valid = filter (\<lambda>s. isValidEmail (sub_email s)) subs" "valid \<noteq> []"
    "build_all hmac cfg (stripTrailingSlash (WORKER_URL cfg)) valid = Inr allEmails"
    unfolding reaches_delivery_def by blast
  let ?d = "deliver w (RESEND_API_KEY cfg) allEmails (before_delivery cfg subs st)"
  note md = main_delivery [OF s(1) s(3) [unfolded s(2)] s(4) [unfolded s(2)], of st]
  have m: "(code, st') =
     (case ?d of
        (Inl x, st5) \<Rightarrow> (1, console_error (Uncaught x) st5)
      | (Inr u, st5) \<Rightarrow>
          (if failed st5 > 0 then 1 else 0,
           console_log (Done (sent st5) (failed st5)
             (length (filter (\<lambda>s. isValidEmail (sub_email s)) subs))) st5))"
    using md e by simp
  obtain res st5 where d: "?d = (res, st5)" by (cases ?d)
  show "(code \<noteq> 0 \<longleftrightarrow> failed st' > 0 \<or> (\<exists>x. last (trace st') = LogError (Uncaught x)))"
    using m d by (cases res) auto
  assume total: "\<forall>k. provider w k \<noteq> Rejected"
  from deliver_total [OF total] obtain s5 where d5: "?d = (Inr (), s5)" by blast
  have "accounted allEmails (before_delivery cfg subs st) s5"
    using d5 by (rule accounted_deliver)
  from accounted_sum [OF this] have "sent s5 + failed s5 = length allEmails"
    by (simp add: before_delivery_def Let_def)
  moreover have "length allEmails = length valid"
    using s(4) 
  proof (induction valid arbitrary: allEmails)
    case Nil
    then show ?case by simp
  next
    case (Cons a valid)
    then show ?case by (auto split: sum.splits)
  qed
  ultimately show "last (trace st') = Log (Done (sent st') (failed st') (length valid)) \<and>
           (code \<noteq> 0 \<longleftrightarrow> failed st' > 0) \<and> sent st' + failed st' = length valid"
    using m d5 unfolding s(2) by auto
qed


lemma valid_sub0: "isValidEmail (sub_email sub0)"
  by (simp add: sub0_def isValidEmail_def regex_test_def emailRegex_def notSpaceOrAt_def js_def cu_def
      isWhiteSpace_def)

lemma invalid_nobody: "\<not> isValidEmail (js ''nobody'')"
  by (simp add: isValidEmail_def regex_test_def emailRegex_def notSpaceOrAt_def js_def cu_def
      isWhiteSpace_def)

lemma worker_url_run: "stripTrailingSlash (WORKER_URL cfg_run) = js ''https://w.example''"
  by (simp add: cfg_run_def make_config_def env0_def stripTrailingSlash_def js_def)

lemma build_run: "buildEmailPayload hmac0 cfg_run sub0 (js ''https://w.example'') = Inr msg_run"
  unfolding buildEmailPayload_def sub0_def
  apply (simp add: encode_sub0 token_sub0 Let_def msg_run_def)
  apply (simp add: cfg_run_def make_config_def env0_def falsy_def)
  apply (simp add: replace_all_def replace_scan.simps UNSUBSCRIBE_MARKER_def js_def cu_def)
  done

lemma reaches_run_rejecting: "reaches_delivery hmac0 cfg_run world_rejecting [sub0] [msg_run]"
  unfolding reaches_delivery_def
  by (rule exI [of _ "[sub0]"]) (simp add: world_rejecting_def valid_sub0 worker_url_run build_run)

lemma reaches_run_accepting: "reaches_delivery hmac0 cfg_run world_accepting [sub0] [msg_run]"
  unfolding reaches_delivery_def
  by (rule exI [of _ "[sub0]"]) (simp add: world_accepting_def valid_sub0 worker_url_run build_run)

lemma ceil_1_50: "\<lceil>(1::real) / 50\<rceil> = 1"
  by (simp add: ceiling_eq_iff)

lemma key_run: "RESEND_API_KEY cfg_run = js ''re_key''" "WORKER_SECRET cfg_run = js ''s3cret''"
  by (simp_all add: cfg_run_def make_config_def env0_def)

lemma main_rejecting:
  "exit_status (main hmac0 cfg_run world_rejecting st0) =
     (1, \<lparr>calls = 1,
          trace = st_fetched @
            [Log (SendingBatch 1 1 1), Request (PostBatch (js ''re_key'') [msg_run]),
             LogError (Uncaught NetworkError)],
          sent = 0, failed = 0\<rparr>)"
  unfolding main_def
  apply (simp add: worker_url_run key_run Let_def fetchJson_directory_def world_rejecting_def
      valid_sub0 build_run)
  apply (simp add: deliver_def batch_loop.simps BATCH_SIZE_def slice_def ceil_1_50 process_batch_def
      sendBatch_def sendBatch_loop.simps fetchJson_def exit_status_def st0_def st_fetched_def
      emit_def console_log_def console_error_def)
  apply (simp add: js_def)
  done

lemma main_accepting:
  "exit_status (main hmac0 cfg_run world_accepting st0) =
     (0, \<lparr>calls = 1,
          trace = st_fetched @
            [Log (SendingBatch 1 1 1), Request (PostBatch (js ''re_key'') [msg_run]),
             Log (SentTo (js ''*@b.co'')), Log (Done 1 0 1)],
          sent = 1, failed = 0\<rparr>)"
  unfolding main_def
  apply (simp add: worker_url_run key_run Let_def fetchJson_directory_def world_accepting_def
      valid_sub0 build_run)
  apply (simp add: deliver_def batch_loop.simps BATCH_SIZE_def slice_def ceil_1_50 process_batch_def
      sendBatch_def sendBatch_loop.simps fetchJson_def exit_status_def st0_def st_fetched_def
      emit_def console_log_def console_error_def valid_sub0)
  apply (simp add: js_def msg_run_def maskEmail_def cu_def jsrepeat_def)
  done

lemma program_run:
  "program hmac0 env0 files0 w = exit_status (main hmac0 cfg_run w st0)"
  by (simp add: program_def env0_def files0_def falsy_def cfg_run_def Let_def js_def)


text \<open>
  Claim C5, as stated, fails. A request that the network rejects makes \<open>fetchJson\<close>
  reject its promise; the exception leaves \<open>sendBatch\<close> and \<open>main\<close>, and the handler
  \<^verbatim>\<open>main().catch(err => { console.error(err); process.exit(1); })\<close> ends the process
  with status 1. Here the run has reached the delivery phase (the batch request is sent),
  it ends with status 1, and the failed count is 0.
\<close>

theorem transport_error_exit_counterexample:
  "program hmac0 env0 files0 world_rejecting =
     (1, \<lparr>calls = 1,
          trace = st_fetched @
            [Log (SendingBatch 1 1 1), Request (PostBatch (js ''re_key'') [msg_run]),
             LogError (Uncaught NetworkError)],
          sent = 0, failed = 0\<rparr>) \<and>
   reaches_delivery hmac0 cfg_run world_rejecting [sub0] [msg_run]"
  using main_rejecting reaches_run_rejecting by (simp add: program_run)

text \<open>
  Claim C5, amended. A run with a missing variable ends with status 0, having done
  nothing but print that. A run with all variables and its template is \<open>main\<close> with its
  exit status. A run whose directory answers 200 with no valid subscriber ends with
  status 0. A run that reaches the delivery phase ends with a non-zero status if and only
  if the final failed count is greater than zero or the run was ended by an exception
  (then the last line printed is the exception); when no request is rejected, it prints
  the summary last, ends with a non-zero status if and only if the failed count is greater
  than zero, and \<open>sent + failed\<close> is the number of valid subscribers.
\<close>

theorem exit_status_spec:
  "(falsy (env_RESEND_API_KEY env) \<or> falsy (env_WORKER_URL env) \<or>
    falsy (env_WORKER_SECRET env) \<or> falsy (env_EPISODE_DATE env) \<longrightarrow>
      program hmac env files w = (0, console_log MissingEnv st0)) \<and>
   (\<not> (falsy (env_RESEND_API_KEY env) \<or> falsy (env_WORKER_URL env) \<or>
       falsy (env_WORKER_SECRET env) \<or> falsy (env_EPISODE_DATE env)) \<and>
    files (js ''episodes/'' @ text_of (env_EPISODE_DATE env) @ js ''/email.html'') = Some template \<longrightarrow>
      program hmac env files w = exit_status (main hmac (make_config env template) w st0)) \<and>
   (directory w = Resolved (200, subs) \<and> filter (\<lambda>s. isValidEmail (sub_email s)) subs = [] \<longrightarrow>
      fst (exit_status (main hmac cfg w st)) = 0) \<and>
   (reaches_delivery hmac cfg w valid allEmails \<and> exit_status (main hmac cfg w st) = (code, st') \<longrightarrow>
      (code \<noteq> 0 \<longleftrightarrow> failed st' > 0 \<or> (\<exists>x. last (trace st') = LogError (Uncaught x))) \<and>
      ((\<forall>k. provider w k \<noteq> Rejected) \<longrightarrow>
         last (trace st') = Log (Done (sent st') (failed st') (length valid)) \<and>
         (code \<noteq> 0 \<longleftrightarrow> failed st' > 0) \<and>
         sent st' + failed st' = length valid))"
  using program_missing [of env hmac files w] program_main [of env files template hmac w]
    main_no_valid [of w subs hmac cfg st]
    exit_after_delivery [of hmac cfg w valid allEmails st code st']
  by blast

text \<open>Claim C5, witness: an environment without the secret; a directory with the one
  invalid address \<open>nobody\<close>; and a run with one valid subscriber whose batch is
  accepted.\<close>

theorem exit_status_spec_witness:
  "falsy (env_WORKER_SECRET env_missing) \<and>
   program hmac0 env_missing files0 world_accepting = (0, console_log MissingEnv st0) \<and>
   program hmac0 env0 files0 world_accepting = exit_status (main hmac0 cfg_run world_accepting st0) \<and>
   directory world_nobody = Resolved (200, [\<lparr>sub_email = js ''nobody''\<rparr>]) \<and>
   filter (\<lambda>s. isValidEmail (sub_email s)) [\<lparr>sub_email = js ''nobody''\<rparr>] = [] \<and>
   fst (exit_status (main hmac0 cfg_run world_nobody st0)) = 0 \<and>
   reaches_delivery hmac0 cfg_run world_accepting [sub0] [msg_run] \<and>
   fst (exit_status (main hmac0 cfg_run world_accepting st0)) = 0 \<and>
   failed (snd (exit_status (main hmac0 cfg_run world_accepting st0))) = 0 \<and>
   sent (snd (exit_status (main hmac0 cfg_run world_accepting st0))) = 1 \<and>
   last (trace (snd (exit_status (main hmac0 cfg_run world_accepting st0)))) = Log (Done 1 0 1)"
proof -
  have missing: "falsy (env_WORKER_SECRET env_missing)"
    by (simp add: env_missing_def falsy_def)
  have present: "\<not> (falsy (env_RESEND_API_KEY env0) \<or> falsy (env_WORKER_URL env0) \<or>
       falsy (env_WORKER_SECRET env0) \<or> falsy (env_EPISODE_DATE env0))"
    by (simp add: env0_def falsy_def js_def)
  have found: "files0 (js ''episodes/'' @ text_of (env_EPISODE_DATE env0) @ js ''/email.html'')
      = Some (js ''Bye: {{UNSUBSCRIBE_URL}}'')"
    by (simp add: files0_def env0_def js_def)
  have nobody: "directory world_nobody = Resolved (200, [\<lparr>sub_email = js ''nobody''\<rparr>])"
    "filter (\<lambda>s. isValidEmail (sub_email s)) [\<lparr>sub_email = js ''nobody''\<rparr>] = []"
    by (simp_all add: world_nobody_def invalid_nobody)
  have total: "\<forall>k. provider world_accepting k \<noteq> Rejected"
    by (simp add: world_accepting_def)
  obtain code st' where run: "exit_status (main hmac0 cfg_run world_accepting st0) = (code, st')"
    by (cases "exit_status (main hmac0 cfg_run world_accepting st0)")
  from exit_status_spec [where env = env_missing and hmac = hmac0 and files = files0
      and w = world_accepting] missing
  have a: "program hmac0 env_missing files0 world_accepting = (0, console_log MissingEnv st0)"
    by blast
  from exit_status_spec [where env = env0 and files = files0
      and template = "js ''Bye: {{UNSUBSCRIBE_URL}}''" and hmac = hmac0 and w = world_accepting]
    present found
  have b: "program hmac0 env0 files0 world_accepting = exit_status (main hmac0 cfg_run world_accepting st0)"
    unfolding cfg_run_def by blast
  from exit_status_spec [where w = world_nobody and subs = "[\<lparr>sub_email = js ''nobody''\<rparr>]"
      and hmac = hmac0 and cfg = cfg_run and st = st0] nobody
  have c: "fst (exit_status (main hmac0 cfg_run world_nobody st0)) = 0"
    by blast
  from exit_status_spec [where w = world_accepting and hmac = hmac0 and cfg = cfg_run and st = st0
      and valid = "[sub0]" and allEmails = "[msg_run]" and code = code and st' = st']
    reaches_run_accepting run total
  have d: "last (trace st') = Log (Done (sent st') (failed st') (length [sub0])) \<and>
         (code \<noteq> 0 \<longleftrightarrow> failed st' > 0) \<and> sent st' + failed st' = length [sub0]"
    by blast
  from run main_accepting have e: "code = 0" "failed st' = 0" "sent st' = 1"
    by auto
  from missing a b c nobody reaches_run_accepting d e run show ?thesis
    by simp
qed

end
